theory Spec2Isabelle
  imports Main
begin

section \<open>Strings of the host language\<close>

text \<open>
  The TypeScript sources work on JavaScript strings. They are modelled as \<open>string\<close>, a list
  of 8-bit characters read as the code points U+0000 to U+00FF; characters beyond that range
  are outside the model. The string operations of the language that the sources call
  (\<open>toLowerCase\<close>, \<open>trim\<close>, \<open>startsWith\<close>, \<open>split\<close>, \<open>join\<close>) are written out below.
\<close>

definition asciiUpperLetters :: string where
  "asciiUpperLetters = ''ABCDEFGHIJKLMNOPQRSTUVWXYZ''"

definition asciiLowerLetters :: string where
  "asciiLowerLetters = ''abcdefghijklmnopqrstuvwxyz''"

definition asciiDigits :: string where
  "asciiDigits = ''0123456789''"

definition latin1UpperLetters :: string where
  "latin1UpperLetters =
     [CHR 0xC0, CHR 0xC1, CHR 0xC2, CHR 0xC3, CHR 0xC4, CHR 0xC5, CHR 0xC6, CHR 0xC7,
      CHR 0xC8, CHR 0xC9, CHR 0xCA, CHR 0xCB, CHR 0xCC, CHR 0xCD, CHR 0xCE, CHR 0xCF,
      CHR 0xD0, CHR 0xD1, CHR 0xD2, CHR 0xD3, CHR 0xD4, CHR 0xD5, CHR 0xD6,
      CHR 0xD8, CHR 0xD9, CHR 0xDA, CHR 0xDB, CHR 0xDC, CHR 0xDD, CHR 0xDE]"

definition latin1LowerLetters :: string where
  "latin1LowerLetters =
     [CHR 0xE0, CHR 0xE1, CHR 0xE2, CHR 0xE3, CHR 0xE4, CHR 0xE5, CHR 0xE6, CHR 0xE7,
      CHR 0xE8, CHR 0xE9, CHR 0xEA, CHR 0xEB, CHR 0xEC, CHR 0xED, CHR 0xEE, CHR 0xEF,
      CHR 0xF0, CHR 0xF1, CHR 0xF2, CHR 0xF3, CHR 0xF4, CHR 0xF5, CHR 0xF6,
      CHR 0xF8, CHR 0xF9, CHR 0xFA, CHR 0xFB, CHR 0xFC, CHR 0xFD, CHR 0xFE]"

text \<open>ASCII case mapping, as the DOM and the URL parser apply it.\<close>

definition asciiLowerChar :: "char \<Rightarrow> char" where
  "asciiLowerChar c =
     (case map_of (zip asciiUpperLetters asciiLowerLetters) c of Some d \<Rightarrow> d | None \<Rightarrow> c)"

definition asciiUpperChar :: "char \<Rightarrow> char" where
  "asciiUpperChar c =
     (case map_of (zip asciiLowerLetters asciiUpperLetters) c of Some d \<Rightarrow> d | None \<Rightarrow> c)"

definition asciiLowercase :: "string \<Rightarrow> string" where
  "asciiLowercase s = map asciiLowerChar s"

definition asciiUppercase :: "string \<Rightarrow> string" where
  "asciiUppercase s = map asciiUpperChar s"

text \<open>\<open>String.prototype.toLowerCase\<close>: on U+0000 to U+00FF it maps A to Z and the
  accented capitals U+00C0 to U+00DE (without the multiplication sign U+00D7).\<close>

definition toLowerChar :: "char \<Rightarrow> char" where
  "toLowerChar c =
     (case map_of (zip (asciiUpperLetters @ latin1UpperLetters)
                       (asciiLowerLetters @ latin1LowerLetters)) c
      of Some d \<Rightarrow> d | None \<Rightarrow> c)"

definition toLowerCase :: "string \<Rightarrow> string" where
  "toLowerCase s = map toLowerChar s"

text \<open>The white space of \<open>trim\<close> and of the regular expression class \<open>\s\<close>: tab, line
  feed, vertical tab, form feed, carriage return, space and the no-break space.\<close>

definition isWhiteSpace :: "char \<Rightarrow> bool" where
  "isWhiteSpace c =
     (c \<in> set [CHR 0x09, CHR 0x0A, CHR 0x0B, CHR 0x0C, CHR 0x0D, CHR 0x20, CHR 0xA0])"

definition trim :: "string \<Rightarrow> string" where
  "trim s = rev (dropWhile isWhiteSpace (rev (dropWhile isWhiteSpace s)))"

definition startsWith :: "string \<Rightarrow> string \<Rightarrow> bool" where
  "startsWith s p = (take (length p) s = p)"

section \<open>The URL constructor of the host\<close>

text \<open>
  \<open>new URL(value, base)\<close> is the host's URL parser, not code of the repository. Its scheme
  handling is fixed by the URL standard and is written out: leading and trailing C0 control
  characters and spaces are stripped, tabs and newlines are removed, and the scheme state
  reads an ASCII letter followed by letters, digits, \<open>+\<close>, \<open>-\<close> and \<open>.\<close> up to a colon,
  lower-casing it. An input without a scheme takes the scheme of the base. Whether the
  remaining states (authority, host, port, path, query, fragment) accept the input is the
  field \<open>URL_accepts\<close> of the host: the constructor throws exactly when it is false or the
  base itself has no scheme.
\<close>

definition isC0ControlOrSpace :: "char \<Rightarrow> bool" where
  "isC0ControlOrSpace c = ((of_char c :: nat) \<le> 32)"

definition isAsciiTabOrNewline :: "char \<Rightarrow> bool" where
  "isAsciiTabOrNewline c = (c \<in> set [CHR 0x09, CHR 0x0A, CHR 0x0D])"

definition isAsciiAlpha :: "char \<Rightarrow> bool" where
  "isAsciiAlpha c = (c \<in> set (asciiUpperLetters @ asciiLowerLetters))"

definition isSchemeChar :: "char \<Rightarrow> bool" where
  "isSchemeChar c =
     (c \<in> set (asciiUpperLetters @ asciiLowerLetters @ asciiDigits @ ''+-.''))"

definition URL_preprocess :: "string \<Rightarrow> string" where
  "URL_preprocess s =
     filter (\<lambda>c. \<not> isAsciiTabOrNewline c)
       (rev (dropWhile isC0ControlOrSpace (rev (dropWhile isC0ControlOrSpace s))))"

fun schemeState :: "string \<Rightarrow> string \<Rightarrow> string option" where
  "schemeState buffer [] = None"
| "schemeState buffer (c # cs) =
     (if isSchemeChar c then schemeState (buffer @ [asciiLowerChar c]) cs
      else if c = CHR '':'' then Some buffer
      else None)"

definition URL_scheme :: "string \<Rightarrow> string option" where
  "URL_scheme s =
     (case URL_preprocess s of
        [] \<Rightarrow> None
      | c # cs \<Rightarrow> if isAsciiAlpha c then schemeState [asciiLowerChar c] cs else None)"

record url_host =
  location_href :: "string option"
  URL_accepts :: "string \<Rightarrow> string \<Rightarrow> bool"

text \<open>\<open>new URL(value, base).protocol\<close>; \<open>None\<close> is the thrown \<open>TypeError\<close>.\<close>

definition URL_protocol :: "url_host \<Rightarrow> string \<Rightarrow> string \<Rightarrow> string option" where
  "URL_protocol h v base =
     (if \<not> URL_accepts h v base then None
      else case URL_scheme base of
             None \<Rightarrow> None
           | Some b \<Rightarrow>
               (case URL_scheme v of
                  Some s \<Rightarrow> Some (s @ '':'')
                | None \<Rightarrow> Some (b @ '':'')))"

section \<open>safeUrl.ts\<close>

definition SAFE_PROTOCOLS :: "string list" where
  "SAFE_PROTOCOLS = [''http:'', ''https:'', ''mailto:'', ''tel:'']"

definition FALLBACK_BASE :: string where
  "FALLBACK_BASE = ''http://localhost''"

text \<open>The base: \<open>window.location.href\<close> when there is a window with a location, the
  fallback otherwise.\<close>

definition base_href :: "url_host \<Rightarrow> string" where
  "base_href h = (case location_href h of Some href \<Rightarrow> href | None \<Rightarrow> FALLBACK_BASE)"

definition normalizeSafeUrl :: "url_host \<Rightarrow> string \<Rightarrow> string option" where
  "normalizeSafeUrl h raw =
     (let v = trim raw in
      if v = [] then None
      else if startsWith v ''#'' then Some v
      else (case URL_protocol h v (base_href h) of
              None \<Rightarrow> None
            | Some protocol \<Rightarrow>
                if protocol \<in> set SAFE_PROTOCOLS then Some v else None))"

definition isSafeUrl :: "url_host \<Rightarrow> string \<Rightarrow> bool" where
  "isSafeUrl h raw = (normalizeSafeUrl h raw \<noteq> None)"

text \<open>Two hosts for concrete runs: a process without a window (server-side rendering), and
  a page opened from the local file system. Their URL parser accepts the inputs used here.\<close>

definition server_host :: url_host where
  "server_host = \<lparr> location_href = None, URL_accepts = (\<lambda>v base. True) \<rparr>"

definition file_page_host :: url_host where
  "file_page_host =
     \<lparr> location_href = Some ''file:///home/user/inbox.html'',
       URL_accepts = (\<lambda>v base. True) \<rparr>"

text \<open>The reference definition of the specification, in its words: trim; empty gives null;
  a leading \<open>#\<close> gives the trimmed string; otherwise resolve against the document location
  or the fallback base; a parse failure gives null; on success the trimmed string is
  returned exactly when the scheme is, compared case-insensitively, one of the four.\<close>

definition spec_allowed_scheme :: "string \<Rightarrow> bool" where
  "spec_allowed_scheme p = (toLowerCase p \<in> {''http:'', ''https:'', ''mailto:'', ''tel:''})"

definition spec_normalizeSafeUrl :: "url_host \<Rightarrow> string \<Rightarrow> string option" where
  "spec_normalizeSafeUrl h raw =
     (if trim raw = [] then None
      else if hd (trim raw) = CHR ''#'' then Some (trim raw)
      else (case URL_protocol h (trim raw)
                   (if location_href h = None then ''http://localhost''
                    else the (location_href h)) of
              None \<Rightarrow> None
            | Some p \<Rightarrow> if spec_allowed_scheme p then Some (trim raw) else None))"

section \<open>The DOM of the host\<close>

text \<open>
  The sanitizer is written against the tree that the host's HTML parser returns: elements
  with a qualified name, an ordered attribute list and child nodes; text nodes; comments.
  The in-place mutation of the tree (each node has one parent, and the loops iterate over
  snapshots made by \<open>Array.from\<close>) is modelled by functions that return the new child list
  and the new attribute list.
\<close>

type_synonym attrs = "(string \<times> string) list"

datatype node =
    Element string attrs "node list"
  | TextNode string
  | CommentNode string

text \<open>\<open>element.textContent\<close>: the data of all text-node descendants in tree order;
  a comment contributes nothing.\<close>

fun textContent :: "node \<Rightarrow> string" where
  "textContent (Element tag as kids) = concat (map textContent kids)"
| "textContent (TextNode d) = d"
| "textContent (CommentNode d) = []"

text \<open>\<open>element.tagName\<close> of an HTML element: the qualified name in ASCII upper case.\<close>

definition tagName :: "string \<Rightarrow> string" where
  "tagName tag = asciiUppercase tag"

text \<open>\<open>getAttribute\<close>, \<open>removeAttribute\<close> and \<open>setAttribute\<close> of an HTML element: the
  argument is put in ASCII lower case, and the first attribute of that name is meant.\<close>

definition getAttribute :: "attrs \<Rightarrow> string \<Rightarrow> string option" where
  "getAttribute as qn = map_of as (asciiLowercase qn)"

fun removeFirst :: "string \<Rightarrow> attrs \<Rightarrow> attrs" where
  "removeFirst n [] = []"
| "removeFirst n ((m, v) # as) = (if m = n then as else (m, v) # removeFirst n as)"

definition removeAttribute :: "attrs \<Rightarrow> string \<Rightarrow> attrs" where
  "removeAttribute as qn = removeFirst (asciiLowercase qn) as"

fun setFirst :: "string \<Rightarrow> string \<Rightarrow> attrs \<Rightarrow> attrs" where
  "setFirst n w [] = [(n, w)]"
| "setFirst n w ((m, v) # as) = (if m = n then (m, w) # as else (m, v) # setFirst n w as)"

definition setAttribute :: "attrs \<Rightarrow> string \<Rightarrow> string \<Rightarrow> attrs" where
  "setAttribute as qn w = setFirst (asciiLowercase qn) w as"

text \<open>What the parser guarantees of the attribute list of an HTML element: the names hold
  no ASCII capital, and no name occurs twice. (On the elements of SVG and MathML the parser
  adjusts the case of some names, such as \<open>viewBox\<close>; the walk never reaches those.)\<close>

definition parsedAttrs :: "attrs \<Rightarrow> bool" where
  "parsedAttrs as =
     (list_all (\<lambda>n. asciiLowercase n = n) (map fst as) \<and> distinct (map fst as))"

text \<open>All elements of a forest, at every depth, in tree order.\<close>

fun elementsOf :: "node list \<Rightarrow> (string \<times> attrs) list" where
  "elementsOf [] = []"
| "elementsOf (Element tag as kids # rest) = (tag, as) # elementsOf kids @ elementsOf rest"
| "elementsOf (TextNode d # rest) = elementsOf rest"
| "elementsOf (CommentNode d # rest) = elementsOf rest"

record dom_host =
  parseFromString :: "string \<Rightarrow> node list"
  innerHTML :: "node list \<Rightarrow> string"

section \<open>sanitizeHtml.ts\<close>

definition ALLOWED_TAGS :: "string list" where
  "ALLOWED_TAGS =
     [''p'', ''br'', ''span'', ''div'', ''b'', ''strong'', ''i'', ''em'', ''u'', ''s'',
      ''strike'', ''del'', ''ins'', ''sub'', ''sup'', ''small'', ''mark'', ''abbr'', ''code'',
      ''pre'', ''kbd'', ''samp'', ''var'', ''cite'', ''q'', ''blockquote'',
      ''h1'', ''h2'', ''h3'', ''h4'', ''h5'', ''h6'',
      ''ul'', ''ol'', ''li'', ''dl'', ''dt'', ''dd'',
      ''table'', ''thead'', ''tbody'', ''tfoot'', ''tr'', ''th'', ''td'', ''caption'',
      ''colgroup'', ''col'',
      ''a'', ''img'',
      ''article'', ''section'', ''aside'', ''header'', ''footer'', ''nav'', ''main'',
      ''figure'', ''figcaption'', ''details'', ''summary'',
      ''hr'', ''wbr'', ''time'', ''address'', ''ruby'', ''rt'', ''rp'']"

definition ALLOWED_ATTRS :: "(string \<times> string list) list" where
  "ALLOWED_ATTRS =
     [(''*'', [''id'', ''class'', ''title'', ''lang'', ''dir'', ''aria-label'',
               ''aria-labelledby'', ''aria-describedby'', ''aria-hidden'', ''role'',
               ''tabindex'', ''data-*'']),
      (''a'', [''href'', ''target'', ''rel'', ''download'', ''hreflang'', ''type'']),
      (''img'', [''src'', ''alt'', ''width'', ''height'', ''loading'', ''decoding'']),
      (''td'', [''colspan'', ''rowspan'', ''headers'']),
      (''th'', [''colspan'', ''rowspan'', ''headers'', ''scope'']),
      (''col'', [''span'']),
      (''colgroup'', [''span'']),
      (''ol'', [''start'', ''reversed'', ''type'']),
      (''li'', [''value'']),
      (''time'', [''datetime'']),
      (''blockquote'', [''cite'']),
      (''q'', [''cite'']),
      (''abbr'', [''title'']),
      (''details'', [''open''])]"

definition ESCAPE_LOOKUP :: "(char \<times> string) list" where
  "ESCAPE_LOOKUP =
     [(CHR ''&'', ''&amp;''), (CHR ''<'', ''&lt;''), (CHR ''>'', ''&gt;''),
      (CHR 0x22, ''&quot;''), (CHR 0x27, ''&#39;'')]"

text \<open>\<open>input.replace(/[&<>"']/g, (char) => ESCAPE_LOOKUP[char] ?? char)\<close>.\<close>

definition escapeChar :: "char \<Rightarrow> string" where
  "escapeChar c =
     (if c \<in> set [CHR ''&'', CHR ''<'', CHR ''>'', CHR 0x22, CHR 0x27]
      then (case map_of ESCAPE_LOOKUP c of Some e \<Rightarrow> e | None \<Rightarrow> [c])
      else [c])"

definition escapeHtml :: "string \<Rightarrow> string" where
  "escapeHtml input = concat (map escapeChar input)"

text \<open>A tree as the parser builds it, as far as the walk sees it: the elements that the
  walk reaches are the children of the body and, in turn, the children of elements with an
  allowed tag. All of them are HTML elements, since foreign content lies below an \<open>svg\<close>
  or \<open>math\<close> element, whose tag is not allowed; so their attribute lists are as
  \<open>parsedAttrs\<close> says. Nothing is asked of what lies below an element with another
  tag.\<close>

fun parsedNode :: "node \<Rightarrow> bool" where
  "parsedNode (Element tag as kids) =
     (if toLowerCase (tagName tag) \<in> set ALLOWED_TAGS
      then parsedAttrs as \<and> list_all parsedNode kids
      else True)"
| "parsedNode (TextNode d) = True"
| "parsedNode (CommentNode d) = True"

text \<open>\<open>isAllowedAttr\<close> is only called with a tag of \<open>ALLOWED_TAGS\<close>, so the lookup
  \<open>ALLOWED_ATTRS[tagName]\<close> finds an own entry of the table or nothing.\<close>

definition isAllowedAttr :: "string \<Rightarrow> string \<Rightarrow> bool" where
  "isAllowedAttr tagNm attrName =
     (let globalAttrs = map_of ALLOWED_ATTRS ''*'';
          tagAttrs = map_of ALLOWED_ATTRS tagNm
      in if (case globalAttrs of Some g \<Rightarrow> attrName \<in> set g | None \<Rightarrow> False) then True
         else if startsWith attrName ''data-'' then True
         else if (case tagAttrs of Some t \<Rightarrow> attrName \<in> set t | None \<Rightarrow> False) then True
         else False)"

text \<open>The attribute loop of \<open>sanitizeElement\<close>: it walks the snapshot
  \<open>Array.from(child.attributes)\<close> and removes from the element's current list.\<close>

fun sanitizeAttributes :: "url_host \<Rightarrow> string \<Rightarrow> attrs \<Rightarrow> attrs \<Rightarrow> attrs" where
  "sanitizeAttributes h tagNm [] cur = cur"
| "sanitizeAttributes h tagNm ((an, av) # rest) cur =
     (let name = toLowerCase an in
      if startsWith name ''on'' then sanitizeAttributes h tagNm rest (removeAttribute cur an)
      else if name = ''style'' then sanitizeAttributes h tagNm rest (removeAttribute cur an)
      else if \<not> isAllowedAttr tagNm name
        then sanitizeAttributes h tagNm rest (removeAttribute cur an)
      else if (name = ''href'' \<or> name = ''src'') \<and> \<not> isSafeUrl h av
        then sanitizeAttributes h tagNm rest (removeAttribute cur an)
      else sanitizeAttributes h tagNm rest cur)"

text \<open>\<open>rel.split(/\s+/)\<close>: the pieces between maximal runs of white space; a leading or a
  trailing run leaves an empty piece, and the empty string splits into one empty piece.\<close>

fun splitWhiteSpace :: "bool \<Rightarrow> string \<Rightarrow> string \<Rightarrow> string list" where
  "splitWhiteSpace inRun cur [] = [cur]"
| "splitWhiteSpace inRun cur (c # cs) =
     (if isWhiteSpace c
      then (if inRun then splitWhiteSpace True [] cs else cur # splitWhiteSpace True [] cs)
      else splitWhiteSpace False (cur @ [c]) cs)"

definition split_ws :: "string \<Rightarrow> string list" where
  "split_ws s = splitWhiteSpace False [] s"

text \<open>A JavaScript \<open>Set\<close> of strings keeps insertion order: a list without repetition.\<close>

definition Set_add :: "string list \<Rightarrow> string \<Rightarrow> string list" where
  "Set_add xs x = (if x \<in> set xs then xs else xs @ [x])"

definition Set_from :: "string list \<Rightarrow> string list" where
  "Set_from xs = foldl Set_add [] xs"

fun joinWith :: "string \<Rightarrow> string list \<Rightarrow> string" where
  "joinWith sep [] = []"
| "joinWith sep [x] = x"
| "joinWith sep (x # y # ys) = x @ sep @ joinWith sep (y # ys)"

text \<open>\<open>rel.split(/\s+/).map((token) => token.trim()).filter(Boolean)\<close>, and the
  \<open>Set\<close> built from it.\<close>

definition tokenList :: "string \<Rightarrow> string list" where
  "tokenList rel = filter (\<lambda>t. t \<noteq> []) (map trim (split_ws rel))"

definition relTokens :: "string \<Rightarrow> string list" where
  "relTokens rel = Set_from (tokenList rel)"

text \<open>The hardening of links that open a new browsing context.\<close>

definition addLinkSecurity :: "string \<Rightarrow> attrs \<Rightarrow> attrs" where
  "addLinkSecurity tagNm as =
     (if tagNm = ''a'' then
        (case getAttribute as ''target'' of
           None \<Rightarrow> as
         | Some target \<Rightarrow>
             if target \<noteq> [] \<and> toLowerCase target = ''_blank'' then
               (let rel = (case getAttribute as ''rel'' of Some r \<Rightarrow> r | None \<Rightarrow> []);
                    toks = Set_add (Set_add (relTokens rel) ''noopener'') ''noreferrer''
                in setAttribute as ''rel'' (joinWith '' '' toks))
             else as)
      else as)"

text \<open>\<open>sanitizeElement(element, doc)\<close>, given as the child nodes of \<open>element\<close> after the
  call. Only element children are visited; text and comments stay as they are.\<close>

fun sanitizeElement :: "url_host \<Rightarrow> node list \<Rightarrow> node list" where
  "sanitizeElement h [] = []"
| "sanitizeElement h (TextNode d # rest) = TextNode d # sanitizeElement h rest"
| "sanitizeElement h (CommentNode d # rest) = CommentNode d # sanitizeElement h rest"
| "sanitizeElement h (Element tag as kids # rest) =
     (if toLowerCase (tagName tag) \<notin> set ALLOWED_TAGS
      then TextNode (textContent (Element tag as kids)) # sanitizeElement h rest
      else Element tag
             (addLinkSecurity (toLowerCase (tagName tag))
                (sanitizeAttributes h (toLowerCase (tagName tag)) as as))
             (sanitizeElement h kids)
           # sanitizeElement h rest)"

definition sanitizeHtml :: "url_host \<Rightarrow> dom_host option \<Rightarrow> string \<Rightarrow> string" where
  "sanitizeHtml h parser input =
     (if input = [] then []
      else case parser of
             None \<Rightarrow> escapeHtml input
           | Some d \<Rightarrow> innerHTML d (sanitizeElement h (parseFromString d input)))"

section \<open>A host with a DOM parser, for concrete runs\<close>

text \<open>
  The getter \<open>innerHTML\<close> follows the fragment serialization of the HTML standard: a start
  tag with the attributes, the children and an end tag, without children and end tag for a
  void element; text escaped, unless its parent is one of the raw text elements; comments
  between their delimiters.
\<close>

definition voidElements :: "string list" where
  "voidElements =
     [''area'', ''base'', ''br'', ''col'', ''embed'', ''hr'', ''img'', ''input'', ''link'',
      ''meta'', ''source'', ''track'', ''wbr'', ''basefont'', ''bgsound'', ''frame'',
      ''keygen'', ''param'']"

definition rawTextElements :: "string list" where
  "rawTextElements =
     [''style'', ''script'', ''xmp'', ''iframe'', ''noembed'', ''noframes'', ''plaintext'']"

definition escapeTextChar :: "char \<Rightarrow> string" where
  "escapeTextChar c =
     (if c = CHR ''&'' then ''&amp;''
      else if c = CHR 0xA0 then ''&nbsp;''
      else if c = CHR ''<'' then ''&lt;''
      else if c = CHR ''>'' then ''&gt;''
      else [c])"

definition escapeAttrChar :: "char \<Rightarrow> string" where
  "escapeAttrChar c =
     (if c = CHR 0x22 then ''&quot;'' else escapeTextChar c)"

definition serializeAttr :: "string \<times> string \<Rightarrow> string" where
  "serializeAttr a =
     '' '' @ fst a @ ''='' @ [CHR 0x22] @ concat (map escapeAttrChar (snd a)) @ [CHR 0x22]"

fun serializeNodes :: "bool \<Rightarrow> node list \<Rightarrow> string" where
  "serializeNodes raw [] = []"
| "serializeNodes raw (TextNode d # rest) =
     (if raw then d else concat (map escapeTextChar d)) @ serializeNodes raw rest"
| "serializeNodes raw (CommentNode d # rest) =
     ''<!--'' @ d @ ''-->'' @ serializeNodes raw rest"
| "serializeNodes raw (Element tag as kids # rest) =
     ''<'' @ tag @ concat (map serializeAttr as) @ ''>''
     @ (if tag \<in> set voidElements then []
        else serializeNodes (tag \<in> set rawTextElements) kids @ ''</'' @ tag @ ''>'')
     @ serializeNodes raw rest"

text \<open>
  The parser of the sample host is given on the four strings that the runs below feed it,
  as the tree construction of the HTML standard reads them (the body's children). A
  \<open>script\<close> in a table row stays in the row. Text directly in a table row does not: the
  parser moves it in front of the table. On other strings the sample parser is not used.
\<close>

definition sample_parses :: "(string \<times> node list) list" where
  "sample_parses =
     [(''<p onclick=x()>Hi</p>'',
         [Element ''p'' [(''onclick'', ''x()'')] [TextNode ''Hi'']]),
      (''<p>Hi</p>'',
         [Element ''p'' [] [TextNode ''Hi'']]),
      (''<table><tr><script>hi</script></tr></table>'',
         [Element ''table'' []
            [Element ''tbody'' []
               [Element ''tr'' [] [Element ''script'' [] [TextNode ''hi'']]]]]),
      (''<table><tbody><tr>hi</tr></tbody></table>'',
         [TextNode ''hi'',
          Element ''table'' [] [Element ''tbody'' [] [Element ''tr'' [] []]]])]"

definition sample_dom_host :: dom_host where
  "sample_dom_host =
     \<lparr> parseFromString =
         (\<lambda>input. case map_of sample_parses input of Some nodes \<Rightarrow> nodes | None \<Rightarrow> []),
       innerHTML = serializeNodes False \<rparr>"

text \<open>\<open>String.prototype.includes\<close>, and the pattern \<open>on[a-z]+=\<close>.\<close>

fun str_includes :: "string \<Rightarrow> string \<Rightarrow> bool" where
  "str_includes [] p = (p = [])"
| "str_includes (c # cs) p = (startsWith (c # cs) p \<or> str_includes cs p)"

fun lettersThenEquals :: "bool \<Rightarrow> string \<Rightarrow> bool" where
  "lettersThenEquals seen [] = False"
| "lettersThenEquals seen (c # cs) =
     (if c \<in> set asciiLowerLetters then lettersThenEquals True cs
      else (seen \<and> c = CHR ''=''))"

fun matchesOnHandler :: "string \<Rightarrow> bool" where
  "matchesOnHandler [] = False"
| "matchesOnHandler (c # cs) =
     ((startsWith (c # cs) ''on'' \<and> lettersThenEquals False (drop 2 (c # cs)))
      \<or> matchesOnHandler cs)"

section \<open>Properties of sanitized trees, as the specification words them\<close>

text \<open>When the specification has an attribute removed from an element with an allowed tag:
  its name, in lower case, starts with \<open>on\<close>; or is \<open>style\<close>; or is in none of the global
  allowlist, the \<open>data-\<close> names and the allowlist of the tag; or is \<open>href\<close> or \<open>src\<close> with a
  value that fails the URL validator.\<close>

definition spec_attr_listed :: "string \<Rightarrow> string \<Rightarrow> bool" where
  "spec_attr_listed key name =
     (case map_of ALLOWED_ATTRS key of Some names \<Rightarrow> name \<in> set names | None \<Rightarrow> False)"

definition spec_attr_removed :: "url_host \<Rightarrow> string \<Rightarrow> string \<times> string \<Rightarrow> bool" where
  "spec_attr_removed h tagNm a =
     (startsWith (toLowerCase (fst a)) ''on''
      \<or> toLowerCase (fst a) = ''style''
      \<or> \<not> (spec_attr_listed ''*'' (toLowerCase (fst a))
            \<or> startsWith (toLowerCase (fst a)) ''data-''
            \<or> spec_attr_listed tagNm (toLowerCase (fst a)))
      \<or> ((toLowerCase (fst a) = ''href'' \<or> toLowerCase (fst a) = ''src'')
           \<and> \<not> isSafeUrl h (snd a)))"

text \<open>An element that the sanitizer may leave in the tree: its tag is allowed, none of its
  attributes is an event handler or \<open>style\<close>, and its \<open>href\<close> and \<open>src\<close> pass the URL
  validator.\<close>

definition safeAttr :: "url_host \<Rightarrow> string \<times> string \<Rightarrow> bool" where
  "safeAttr h a =
     (if startsWith (toLowerCase (fst a)) ''on'' then False
      else if toLowerCase (fst a) = ''style'' then False
      else if toLowerCase (fst a) = ''href'' \<or> toLowerCase (fst a) = ''src''
        then isSafeUrl h (snd a)
      else True)"

definition safeElement :: "url_host \<Rightarrow> string \<times> attrs \<Rightarrow> bool" where
  "safeElement h e =
     (toLowerCase (tagName (fst e)) \<in> set ALLOWED_TAGS \<and> list_all (safeAttr h) (snd e))"

text \<open>An anchor whose \<open>target\<close> is \<open>_blank\<close>, compared case-insensitively.\<close>

definition blankAnchor :: "string \<times> attrs \<Rightarrow> bool" where
  "blankAnchor e =
     (toLowerCase (tagName (fst e)) = ''a''
      \<and> (case getAttribute (snd e) ''target'' of
            Some t \<Rightarrow> toLowerCase t = ''_blank''
          | None \<Rightarrow> False))"

text \<open>Such an anchor is hardened when its \<open>rel\<close> holds both tokens and no token twice.\<close>

definition hardened :: "string \<times> attrs \<Rightarrow> bool" where
  "hardened e =
     (if blankAnchor e then
        (case getAttribute (snd e) ''rel'' of
           Some r \<Rightarrow> ''noopener'' \<in> set (tokenList r) \<and> ''noreferrer'' \<in> set (tokenList r)
                     \<and> distinct (tokenList r)
         | None \<Rightarrow> False)
      else True)"

definition relOf :: "attrs \<Rightarrow> string" where
  "relOf as = (case getAttribute as ''rel'' of Some r \<Rightarrow> r | None \<Rightarrow> [])"


text \<open>A token as \<open>tokenList\<close> returns it: not empty and free of white space.\<close>

definition cleanToken :: "string \<Rightarrow> bool" where
  "cleanToken t = (t \<noteq> [] \<and> list_all (\<lambda>c. \<not> isWhiteSpace c) t)"

text \<open>The tag openers and tag names that the specification wants absent from the output.\<close>

definition dangerousOpeners :: "string list" where
  "dangerousOpeners = [''<script'', ''<iframe'', ''<object'', ''<embed'', ''<svg'', ''<math'']"

definition dangerousTags :: "string list" where
  "dangerousTags = [''script'', ''iframe'', ''object'', ''embed'', ''svg'', ''math'']"

section \<open>Values and objects of the host language\<close>

text \<open>
  The validator receives a value of type \<open>unknown\<close>: a primitive or a reference to an
  object. Objects live in a heap, each an ordered list of own properties; reading a
  property that is not there gives \<open>undefined\<close>. An array is an object too (its \<open>typeof\<close>
  is \<open>"object"\<close>). Numbers are only passed around here, so an integer stands for them.
\<close>

datatype val =
    JUndefined
  | JNull
  | JBoolean bool
  | JNumber int
  | JString string
  | JObject nat

type_synonym props = "(string \<times> val) list"

type_synonym heap = "nat \<Rightarrow> props"

record store =
  objects :: heap
  next_free :: nat

text \<open>\<open>typeof v === "object"\<close>, which holds of \<open>null\<close> as well.\<close>

definition typeof_object :: "val \<Rightarrow> bool" where
  "typeof_object v = (case v of JNull \<Rightarrow> True | JObject a \<Rightarrow> True | _ \<Rightarrow> False)"

definition typeof_string :: "val \<Rightarrow> bool" where
  "typeof_string v = (case v of JString s \<Rightarrow> True | _ \<Rightarrow> False)"

text \<open>\<open>obj.key\<close> for a value that passed the object check: the own property, or
  \<open>undefined\<close>. None of the keys that the validator reads is a property of
  \<open>Object.prototype\<close> or \<open>Array.prototype\<close>, so inheritance plays no part.\<close>

definition getProp :: "heap \<Rightarrow> val \<Rightarrow> string \<Rightarrow> val" where
  "getProp H v key =
     (case v of
        JObject a \<Rightarrow> (case map_of (H a) key of Some x \<Rightarrow> x | None \<Rightarrow> JUndefined)
      | _ \<Rightarrow> JUndefined)"

text \<open>Truthiness, as \<open>&&\<close> tests it.\<close>

definition truthy :: "val \<Rightarrow> bool" where
  "truthy v =
     (case v of
        JUndefined \<Rightarrow> False
      | JNull \<Rightarrow> False
      | JBoolean b \<Rightarrow> b
      | JNumber n \<Rightarrow> n \<noteq> 0
      | JString s \<Rightarrow> s \<noteq> []
      | JObject a \<Rightarrow> True)"

section \<open>validateApiResponse.ts\<close>

definition isNonEmptyString :: "val \<Rightarrow> bool" where
  "isNonEmptyString v = (case v of JString s \<Rightarrow> length s > 0 | _ \<Rightarrow> False)"

definition isStringOrNull :: "val \<Rightarrow> bool" where
  "isStringOrNull v = (v = JNull \<or> typeof_string v)"

definition isValidActionType :: "val \<Rightarrow> bool" where
  "isValidActionType v = (v = JString ''primary'' \<or> v = JString ''secondary'')"

definition isValidTarget :: "val \<Rightarrow> bool" where
  "isValidTarget v =
     (if v = JUndefined then True
      else case v of
             JString s \<Rightarrow>
               s \<in> set [''_self'', ''_blank'', ''_parent'', ''_top''] \<or> startsWith s ''_''
           | _ \<Rightarrow> False)"

definition validateLinkAction :: "url_host \<Rightarrow> heap \<Rightarrow> val \<Rightarrow> bool" where
  "validateLinkAction h H action =
     (if \<not> typeof_object action \<or> action = JNull then False
      else if getProp H action ''kind'' \<noteq> JString ''link'' then False
      else if \<not> isNonEmptyString (getProp H action ''label'') then False
      else if \<not> isValidActionType (getProp H action ''type'') then False
      else if \<not> isNonEmptyString (getProp H action ''href'') then False
      else if \<not> (case getProp H action ''href'' of JString u \<Rightarrow> isSafeUrl h u | _ \<Rightarrow> False)
        then False
      else if \<not> isValidTarget (getProp H action ''target'') then False
      else if getProp H action ''rel'' \<noteq> JUndefined
              \<and> \<not> typeof_string (getProp H action ''rel'') then False
      else if getProp H action ''id'' \<noteq> JUndefined
              \<and> \<not> typeof_string (getProp H action ''id'') then False
      else True)"

definition validateCallbackAction :: "heap \<Rightarrow> val \<Rightarrow> bool" where
  "validateCallbackAction H action =
     (if \<not> typeof_object action \<or> action = JNull then False
      else if getProp H action ''kind'' \<noteq> JString ''callback'' then False
      else if \<not> isNonEmptyString (getProp H action ''label'') then False
      else if \<not> isValidActionType (getProp H action ''type'') then False
      else if \<not> isNonEmptyString (getProp H action ''actionId'') then False
      else if getProp H action ''id'' \<noteq> JUndefined
              \<and> \<not> typeof_string (getProp H action ''id'') then False
      else True)"

definition validateAction :: "url_host \<Rightarrow> heap \<Rightarrow> val \<Rightarrow> bool" where
  "validateAction h H action =
     (if action = JUndefined then True
      else validateLinkAction h H action \<or> validateCallbackAction H action)"

datatype ValidationResult = Valid val | Invalid string

definition validateMessageDetailsResponse ::
    "url_host \<Rightarrow> heap \<Rightarrow> val \<Rightarrow> ValidationResult" where
  "validateMessageDetailsResponse h H response =
     (if \<not> typeof_object response \<or> response = JNull
        then Invalid ''Response must be an object''
      else if \<not> isNonEmptyString (getProp H response ''messageId'')
        then Invalid ''messageId must be a non-empty string''
      else if \<not> isStringOrNull (getProp H response ''title'')
        then Invalid ''title must be a string or null''
      else if \<not> isStringOrNull (getProp H response ''snippet'')
        then Invalid ''snippet must be a string or null''
      else if \<not> isNonEmptyString (getProp H response ''createdAt'')
        then Invalid ''createdAt must be a non-empty string''
      else if \<not> typeof_string (getProp H response ''bodyHtml'')
        then Invalid ''bodyHtml must be a string''
      else if \<not> isStringOrNull (getProp H response ''category'')
        then Invalid ''category must be a string or null''
      else if getProp H response ''primaryAction'' \<noteq> JUndefined
              \<and> \<not> validateAction h H (getProp H response ''primaryAction'')
        then Invalid ''primaryAction has invalid structure or unsafe URL''
      else if getProp H response ''secondaryAction'' \<noteq> JUndefined
              \<and> \<not> validateAction h H (getProp H response ''secondaryAction'')
        then Invalid ''secondaryAction has invalid structure or unsafe URL''
      else Valid response)"

text \<open>\<open>{ ...response }\<close> allocates a new object with the own properties of the argument;
  \<open>delete sanitized.key\<close> removes a property of that new object.\<close>

definition ownProps :: "heap \<Rightarrow> val \<Rightarrow> props" where
  "ownProps H v = (case v of JObject a \<Rightarrow> H a | _ \<Rightarrow> [])"

definition spreadCopy :: "store \<Rightarrow> val \<Rightarrow> store \<times> val" where
  "spreadCopy st v =
     (st\<lparr> objects := (objects st)(next_free st := ownProps (objects st) v),
          next_free := Suc (next_free st) \<rparr>,
      JObject (next_free st))"

definition deleteProp :: "store \<Rightarrow> val \<Rightarrow> string \<Rightarrow> store" where
  "deleteProp st v key =
     (case v of
        JObject a \<Rightarrow>
          st\<lparr> objects := (objects st)(a := filter (\<lambda>kv. fst kv \<noteq> key) (objects st a)) \<rparr>
      | _ \<Rightarrow> st)"

definition sanitizeMessageDetailsResponse ::
    "url_host \<Rightarrow> store \<Rightarrow> val \<Rightarrow> store \<times> val" where
  "sanitizeMessageDetailsResponse h st response =
     (let (st1, sanitized) = spreadCopy st response;
          st2 = (if truthy (getProp (objects st1) sanitized ''primaryAction'')
                    \<and> \<not> validateAction h (objects st1)
                          (getProp (objects st1) sanitized ''primaryAction'')
                 then deleteProp st1 sanitized ''primaryAction'' else st1);
          st3 = (if truthy (getProp (objects st2) sanitized ''secondaryAction'')
                    \<and> \<not> validateAction h (objects st2)
                          (getProp (objects st2) sanitized ''secondaryAction'')
                 then deleteProp st2 sanitized ''secondaryAction'' else st2)
      in (st3, sanitized))"

text \<open>The nine checks of \<open>validateMessageDetailsResponse\<close> by name, the order the
  specification lists them in, and the field each diagnostic speaks of.\<close>

datatype check =
    ChkResponse | ChkMessageId | ChkTitle | ChkSnippet | ChkCreatedAt
  | ChkBodyHtml | ChkCategory | ChkPrimaryAction | ChkSecondaryAction

definition checkOrder :: "check list" where
  "checkOrder =
     [ChkResponse, ChkMessageId, ChkTitle, ChkSnippet, ChkCreatedAt,
      ChkBodyHtml, ChkCategory, ChkPrimaryAction, ChkSecondaryAction]"

fun checkFails :: "url_host \<Rightarrow> heap \<Rightarrow> val \<Rightarrow> check \<Rightarrow> bool" where
  "checkFails h H r ChkResponse = (\<not> typeof_object r \<or> r = JNull)"
| "checkFails h H r ChkMessageId = (\<not> isNonEmptyString (getProp H r ''messageId''))"
| "checkFails h H r ChkTitle = (\<not> isStringOrNull (getProp H r ''title''))"
| "checkFails h H r ChkSnippet = (\<not> isStringOrNull (getProp H r ''snippet''))"
| "checkFails h H r ChkCreatedAt = (\<not> isNonEmptyString (getProp H r ''createdAt''))"
| "checkFails h H r ChkBodyHtml = (\<not> typeof_string (getProp H r ''bodyHtml''))"
| "checkFails h H r ChkCategory = (\<not> isStringOrNull (getProp H r ''category''))"
| "checkFails h H r ChkPrimaryAction =
     (getProp H r ''primaryAction'' \<noteq> JUndefined
      \<and> \<not> validateAction h H (getProp H r ''primaryAction''))"
| "checkFails h H r ChkSecondaryAction =
     (getProp H r ''secondaryAction'' \<noteq> JUndefined
      \<and> \<not> validateAction h H (getProp H r ''secondaryAction''))"

fun checkField :: "check \<Rightarrow> string" where
  "checkField ChkResponse = ''Response''"
| "checkField ChkMessageId = ''messageId''"
| "checkField ChkTitle = ''title''"
| "checkField ChkSnippet = ''snippet''"
| "checkField ChkCreatedAt = ''createdAt''"
| "checkField ChkBodyHtml = ''bodyHtml''"
| "checkField ChkCategory = ''category''"
| "checkField ChkPrimaryAction = ''primaryAction''"
| "checkField ChkSecondaryAction = ''secondaryAction''"

text \<open>The diagnostic that the source returns when a check fails.\<close>

fun checkError :: "check \<Rightarrow> string" where
  "checkError ChkResponse = ''Response must be an object''"
| "checkError ChkMessageId = ''messageId must be a non-empty string''"
| "checkError ChkTitle = ''title must be a string or null''"
| "checkError ChkSnippet = ''snippet must be a string or null''"
| "checkError ChkCreatedAt = ''createdAt must be a non-empty string''"
| "checkError ChkBodyHtml = ''bodyHtml must be a string''"
| "checkError ChkCategory = ''category must be a string or null''"
| "checkError ChkPrimaryAction = ''primaryAction has invalid structure or unsafe URL''"
| "checkError ChkSecondaryAction = ''secondaryAction has invalid structure or unsafe URL''"

text \<open>The first check of the list that fails, if any.\<close>

definition firstFailure :: "url_host \<Rightarrow> heap \<Rightarrow> val \<Rightarrow> check option" where
  "firstFailure h H r = find (checkFails h H r) checkOrder"

text \<open>Two messages as the tests build them: object 0 with an unsafe link as primary action
  and a safe one as secondary action, object 3 with the safe link alone.\<close>

definition sample_heap :: heap where
  "sample_heap =
     (\<lambda>a. []) (0 := [(''messageId'', JString ''msg-123''),
                     (''title'', JString ''Test Title''),
                     (''snippet'', JString ''Test snippet''),
                     (''createdAt'', JString ''2024-01-15T10:00:00Z''),
                     (''bodyHtml'', JString ''<p>Hello World</p>''),
                     (''category'', JString ''updates''),
                     (''primaryAction'', JObject 1),
                     (''secondaryAction'', JObject 2)],
                1 := [(''kind'', JString ''link''),
                     (''label'', JString ''Click me''),
                     (''type'', JString ''primary''),
                     (''href'', JString ''javascript:alert(1)'')],
                2 := [(''kind'', JString ''link''),
                     (''label'', JString ''Docs''),
                     (''type'', JString ''secondary''),
                     (''href'', JString ''https://example.com/docs''),
                     (''target'', JString ''_blank'')],
                3 := [(''messageId'', JString ''msg-124''),
                     (''title'', JNull),
                     (''snippet'', JString ''Test snippet''),
                     (''createdAt'', JString ''2024-01-15T10:00:00Z''),
                     (''bodyHtml'', JString []),
                     (''category'', JNull),
                     (''primaryAction'', JObject 2)])"

definition sample_store :: store where
  "sample_store = \<lparr> objects = sample_heap, next_free = 4 \<rparr>"

text \<open>An action slot of a \<open>MessageDetails\<close> record: absent, or an object of the heap.\<close>

definition actionSlot :: "store \<Rightarrow> val \<Rightarrow> bool" where
  "actionSlot st v = (case v of JUndefined \<Rightarrow> True | JObject a \<Rightarrow> a < next_free st | _ \<Rightarrow> False)"

text \<open>A payload whose \<open>messageId\<close> is empty and whose \<open>title\<close> is a number.\<close>

definition broken_heap :: heap where
  "broken_heap = (\<lambda>a. [(''messageId'', JString []), (''title'', JNumber 5)])"

section \<open>Facts about the URL validator\<close>

lemmas char_tables = asciiUpperLetters_def asciiLowerLetters_def asciiDigits_def
  latin1UpperLetters_def latin1LowerLetters_def

lemma schemeChar_lower_fixed:
  assumes "isSchemeChar c"
  shows "toLowerChar (asciiLowerChar c) = asciiLowerChar c"
proof -
  from assms have "c \<in> set (asciiUpperLetters @ asciiLowerLetters @ asciiDigits @ ''+-.'')"
    by (simp only: isSchemeChar_def)
  then show ?thesis
    unfolding char_tables
    by (simp only: set_simps append.simps insert_iff empty_iff, elim disjE FalseE)
       (simp_all add: toLowerChar_def asciiLowerChar_def char_tables)
qed

lemma asciiAlpha_schemeChar: "isAsciiAlpha c \<Longrightarrow> isSchemeChar c"
  by (auto simp: isAsciiAlpha_def isSchemeChar_def)

lemma schemeState_lower:
  "schemeState buf cs = Some x \<Longrightarrow> toLowerCase buf = buf \<Longrightarrow> toLowerCase x = x"
proof (induction cs arbitrary: buf)
  case Nil
  then show ?case by simp
next
  case (Cons c cs)
  show ?case
  proof (cases "isSchemeChar c")
    case True
    with Cons.prems have "schemeState (buf @ [asciiLowerChar c]) cs = Some x" by simp
    moreover have "toLowerCase (buf @ [asciiLowerChar c]) = buf @ [asciiLowerChar c]"
      using Cons.prems(2) True by (simp add: toLowerCase_def schemeChar_lower_fixed)
    ultimately show ?thesis by (rule Cons.IH)
  next
    case False
    with Cons.prems show ?thesis by (simp split: if_splits)
  qed
qed

lemma URL_scheme_lower:
  assumes "URL_scheme s = Some x"
  shows "toLowerCase x = x"
proof (cases "URL_preprocess s")
  case Nil
  with assms show ?thesis by (simp add: URL_scheme_def)
next
  case (Cons c cs)
  with assms have alpha: "isAsciiAlpha c" and st: "schemeState [asciiLowerChar c] cs = Some x"
    by (simp_all add: URL_scheme_def split: if_splits)
  have "toLowerCase [asciiLowerChar c] = [asciiLowerChar c]"
    using alpha by (simp add: toLowerCase_def schemeChar_lower_fixed asciiAlpha_schemeChar)
  with st show ?thesis by (rule schemeState_lower)
qed

lemma colon_lower: "toLowerChar (CHR '':'') = CHR '':''"
  by (simp add: toLowerChar_def char_tables)

lemma URL_protocol_lower: "URL_protocol h v b = Some p \<Longrightarrow> toLowerCase p = p"
  unfolding URL_protocol_def
  by (auto split: if_splits option.splits dest!: URL_scheme_lower simp: toLowerCase_def colon_lower)

lemma spec_allowed_scheme_iff:
  "toLowerCase p = p \<Longrightarrow> spec_allowed_scheme p \<longleftrightarrow> p \<in> set SAFE_PROTOCOLS"
  by (simp add: spec_allowed_scheme_def SAFE_PROTOCOLS_def)

lemma startsWith_hash: "v \<noteq> [] \<Longrightarrow> startsWith v ''#'' \<longleftrightarrow> hd v = CHR ''#''"
  by (cases v) (simp_all add: startsWith_def)

lemma base_href_spec:
  "base_href h = (if location_href h = None then ''http://localhost'' else the (location_href h))"
  by (simp add: base_href_def FALLBACK_BASE_def split: option.splits)

lemma strip_keeps_head:
  assumes "\<not> P c"
  shows "\<exists>zs. rev (dropWhile P (rev (dropWhile P (c # cs)))) = c # zs"
proof -
  have keep: "dropWhile P (c # cs) = c # cs"
    using assms by simp
  have "dropWhile P (rev cs @ [c]) = dropWhile P (rev cs) @ [c]
        \<or> dropWhile P (rev cs @ [c]) = [c]"
    using assms by (simp add: dropWhile_append)
  then show ?thesis
  proof
    assume "dropWhile P (rev cs @ [c]) = dropWhile P (rev cs) @ [c]"
    then have "rev (dropWhile P (rev (dropWhile P (c # cs)))) = c # rev (dropWhile P (rev cs))"
      unfolding keep by simp
    then show ?thesis by (rule exI)
  next
    assume "dropWhile P (rev cs @ [c]) = [c]"
    then have "rev (dropWhile P (rev (dropWhile P (c # cs)))) = c # []"
      unfolding keep by simp
    then show ?thesis by (rule exI)
  qed
qed

lemma startsWith_slash_Cons:
  assumes "startsWith v ''//''"
  shows "\<exists>cs. v = CHR ''/'' # cs"
proof (cases v)
  case Nil
  with assms show ?thesis by (simp add: startsWith_def)
next
  case (Cons c cs)
  with assms have "c = CHR ''/''" by (simp add: startsWith_def)
  with Cons show ?thesis by simp
qed

lemma URL_scheme_slash:
  assumes "startsWith v ''//''"
  shows "URL_scheme v = None"
proof -
  from startsWith_slash_Cons [OF assms] obtain cs where v: "v = CHR ''/'' # cs" ..
  have "\<not> isC0ControlOrSpace (CHR ''/'')" by (simp add: isC0ControlOrSpace_def)
  from strip_keeps_head [of isC0ControlOrSpace "CHR ''/''" cs, OF this] obtain zs where
    "rev (dropWhile isC0ControlOrSpace (rev (dropWhile isC0ControlOrSpace v))) = CHR ''/'' # zs"
    unfolding v ..
  then have "URL_preprocess v = CHR ''/'' # filter (\<lambda>c. \<not> isAsciiTabOrNewline c) zs"
    by (simp add: URL_preprocess_def isAsciiTabOrNewline_def)
  then show ?thesis
    by (simp add: URL_scheme_def isAsciiAlpha_def char_tables)
qed

lemma URL_scheme_non_alpha:
  assumes "\<not> isC0ControlOrSpace c" and "\<not> isAsciiTabOrNewline c" and "\<not> isAsciiAlpha c"
  shows "URL_scheme (c # cs) = None"
proof -
  from strip_keeps_head [of isC0ControlOrSpace c cs, OF assms(1)] obtain zs where
    "rev (dropWhile isC0ControlOrSpace (rev (dropWhile isC0ControlOrSpace (c # cs)))) = c # zs" ..
  then have "URL_preprocess (c # cs) = c # filter (\<lambda>c. \<not> isAsciiTabOrNewline c) zs"
    using assms(2) by (simp add: URL_preprocess_def)
  then show ?thesis
    using assms(3) by (simp add: URL_scheme_def)
qed

lemma URL_scheme_hash: "startsWith v ''#'' \<Longrightarrow> URL_scheme v = None"
proof -
  assume "startsWith v ''#''"
  then obtain cs where v: "v = CHR ''#'' # cs"
    by (cases v) (simp_all add: startsWith_def)
  show ?thesis
    unfolding v
    by (rule URL_scheme_non_alpha)
       (simp_all add: isC0ControlOrSpace_def isAsciiTabOrNewline_def isAsciiAlpha_def char_tables)
qed

lemma other_scheme_rejected:
  assumes "URL_scheme (trim raw) = Some s"
    and "s \<notin> {''http'', ''https'', ''mailto'', ''tel''}"
  shows "normalizeSafeUrl h raw = None"
proof -
  have ne: "trim raw \<noteq> []"
    using assms(1) by (auto simp: URL_scheme_def URL_preprocess_def)
  have nohash: "\<not> startsWith (trim raw) ''#''"
    using assms(1) URL_scheme_hash [of "trim raw"] by auto
  have "URL_protocol h (trim raw) (base_href h) = None
        \<or> URL_protocol h (trim raw) (base_href h) = Some (s @ '':'')"
    using assms(1) by (simp add: URL_protocol_def split: option.splits)
  moreover have "s @ '':'' \<notin> set SAFE_PROTOCOLS"
    using assms(2) by (auto simp: SAFE_PROTOCOLS_def append_eq_Cons_conv)
  ultimately show ?thesis
    using ne nohash by (auto simp: normalizeSafeUrl_def Let_def)
qed

text \<open>
  Claim C2. \<open>normalizeSafeUrl\<close> equals the reference definition of the specification
  on every host and every string, and \<open>isSafeUrl\<close> holds exactly when the result is not
  null. The exact comparison of the source and the case-insensitive one of the specification
  agree because the URL parser returns the scheme in lower case. An input whose scheme, as
  the parser reads it, is not one of \<open>http\<close>, \<open>https\<close>, \<open>mailto\<close>, \<open>tel\<close> is rejected,
  however it is capitalised.
\<close>

theorem normalizeSafeUrl_refines_spec:
  "normalizeSafeUrl h raw = spec_normalizeSafeUrl h raw
   \<and> (isSafeUrl h raw \<longleftrightarrow> spec_normalizeSafeUrl h raw \<noteq> None)
   \<and> (URL_scheme (trim raw) = Some s \<and> s \<notin> {''http'', ''https'', ''mailto'', ''tel''}
        \<longrightarrow> normalizeSafeUrl h raw = None)"
proof -
  have eq: "normalizeSafeUrl h raw = spec_normalizeSafeUrl h raw"
  proof (cases "trim raw = []")
    case True
    then show ?thesis by (simp add: normalizeSafeUrl_def spec_normalizeSafeUrl_def)
  next
    case False
    show ?thesis
    proof (cases "URL_protocol h (trim raw) (base_href h)")
      case None
      then show ?thesis
        using False
        by (simp add: normalizeSafeUrl_def spec_normalizeSafeUrl_def Let_def startsWith_hash
            base_href_spec [symmetric])
    next
      case (Some p)
      then have "spec_allowed_scheme p \<longleftrightarrow> p \<in> set SAFE_PROTOCOLS"
        by (intro spec_allowed_scheme_iff) (rule URL_protocol_lower)
      then show ?thesis
        using False Some
        by (simp add: normalizeSafeUrl_def spec_normalizeSafeUrl_def Let_def startsWith_hash
            base_href_spec [symmetric])
    qed
  qed
  then show ?thesis
    using other_scheme_rejected [of raw s h] by (simp add: isSafeUrl_def)
qed

lemmas url_eval = char_tables asciiLowerChar_def toLowerChar_def toLowerCase_def
  isWhiteSpace_def trim_def startsWith_def isC0ControlOrSpace_def isAsciiTabOrNewline_def
  isAsciiAlpha_def isSchemeChar_def URL_preprocess_def URL_scheme_def URL_protocol_def
  SAFE_PROTOCOLS_def FALLBACK_BASE_def base_href_def normalizeSafeUrl_def isSafeUrl_def
  server_host_def file_page_host_def

theorem normalizeSafeUrl_refines_spec_witness:
  "spec_normalizeSafeUrl server_host '' HTTPS://example.com/a '' = Some ''HTTPS://example.com/a''
   \<and> spec_normalizeSafeUrl file_page_host ''#top'' = Some ''#top''
   \<and> spec_normalizeSafeUrl server_host ''/relative/path'' = Some ''/relative/path''
   \<and> spec_normalizeSafeUrl server_host ''   '' = None
   \<and> normalizeSafeUrl server_host ''JAVASCRIPT:alert(1)'' = None
   \<and> normalizeSafeUrl server_host ''data:text/html,<script>'' = None
   \<and> normalizeSafeUrl server_host ''vbscript:msgbox(1)'' = None
   \<and> normalizeSafeUrl server_host ''file:///etc/passwd'' = None"
proof -
  have a: "normalizeSafeUrl server_host '' HTTPS://example.com/a '' = Some ''HTTPS://example.com/a''"
    by (simp add: url_eval)
  have b: "normalizeSafeUrl file_page_host ''#top'' = Some ''#top''"
    by (simp add: url_eval)
  have c: "normalizeSafeUrl server_host ''/relative/path'' = Some ''/relative/path''"
    by (simp add: url_eval)
  have d: "normalizeSafeUrl server_host ''   '' = None"
    by (simp add: url_eval)
  have js: "URL_scheme (trim ''JAVASCRIPT:alert(1)'') = Some ''javascript''
            \<and> ''javascript'' \<notin> {''http'', ''https'', ''mailto'', ''tel''}"
    by (simp add: url_eval)
  have dt: "URL_scheme (trim ''data:text/html,<script>'') = Some ''data''
            \<and> ''data'' \<notin> {''http'', ''https'', ''mailto'', ''tel''}"
    by (simp add: url_eval)
  have vb: "URL_scheme (trim ''vbscript:msgbox(1)'') = Some ''vbscript''
            \<and> ''vbscript'' \<notin> {''http'', ''https'', ''mailto'', ''tel''}"
    by (simp add: url_eval)
  have fl: "URL_scheme (trim ''file:///etc/passwd'') = Some ''file''
            \<and> ''file'' \<notin> {''http'', ''https'', ''mailto'', ''tel''}"
    by (simp add: url_eval)
  have 1: "spec_normalizeSafeUrl server_host '' HTTPS://example.com/a ''
           = Some ''HTTPS://example.com/a''"
    using a normalizeSafeUrl_refines_spec [of server_host "'' HTTPS://example.com/a ''"]
    by simp
  have 2: "spec_normalizeSafeUrl file_page_host ''#top'' = Some ''#top''"
    using b normalizeSafeUrl_refines_spec [of file_page_host "''#top''"] by simp
  have 3: "spec_normalizeSafeUrl server_host ''/relative/path'' = Some ''/relative/path''"
    using c normalizeSafeUrl_refines_spec [of server_host "''/relative/path''"] by simp
  have 4: "spec_normalizeSafeUrl server_host ''   '' = None"
    using d normalizeSafeUrl_refines_spec [of server_host "''   ''"] by simp
  have 5: "normalizeSafeUrl server_host ''JAVASCRIPT:alert(1)'' = None"
    by (rule mp [OF conjunct2 [OF conjunct2 [OF normalizeSafeUrl_refines_spec]] js])
  have 6: "normalizeSafeUrl server_host ''data:text/html,<script>'' = None"
    by (rule mp [OF conjunct2 [OF conjunct2 [OF normalizeSafeUrl_refines_spec]] dt])
  have 7: "normalizeSafeUrl server_host ''vbscript:msgbox(1)'' = None"
    by (rule mp [OF conjunct2 [OF conjunct2 [OF normalizeSafeUrl_refines_spec]] vb])
  have 8: "normalizeSafeUrl server_host ''file:///etc/passwd'' = None"
    by (rule mp [OF conjunct2 [OF conjunct2 [OF normalizeSafeUrl_refines_spec]] fl])
  from 1 2 3 4 5 6 7 8 show ?thesis by (intro conjI)
qed

lemma FALLBACK_scheme: "URL_scheme FALLBACK_BASE = Some ''http''"
  by (simp add: url_eval)

text \<open>
  Claim C10, as amended. A protocol-relative reference takes the scheme of the base it is
  resolved against. When the URL parser accepts it and that base has the scheme \<open>http\<close> or
  \<open>https\<close>, as the fallback base always has when there is no window, \<open>normalizeSafeUrl\<close>
  returns the trimmed string and \<open>isSafeUrl\<close> holds.
\<close>

theorem protocol_relative_safe_on_http_base:
  assumes "startsWith (trim raw) ''//''"
    and "URL_accepts h (trim raw) (base_href h)"
    and "location_href h = None
         \<or> URL_scheme (base_href h) = Some ''http''
         \<or> URL_scheme (base_href h) = Some ''https''"
  shows "normalizeSafeUrl h raw = Some (trim raw) \<and> isSafeUrl h raw"
proof -
  have ne: "trim raw \<noteq> []"
    using assms(1) by (auto simp: startsWith_def)
  have nohash: "\<not> startsWith (trim raw) ''#''"
    using assms(1) by (cases "trim raw") (simp_all add: startsWith_def)
  have noscheme: "URL_scheme (trim raw) = None"
    using assms(1) by (rule URL_scheme_slash)
  have "URL_scheme (base_href h) = Some ''http'' \<or> URL_scheme (base_href h) = Some ''https''"
    using assms(3) FALLBACK_scheme by (auto simp: base_href_def)
  then have "URL_protocol h (trim raw) (base_href h) = Some ''http:''
             \<or> URL_protocol h (trim raw) (base_href h) = Some ''https:''"
    using assms(2) noscheme by (auto simp: URL_protocol_def)
  then have "normalizeSafeUrl h raw = Some (trim raw)"
  proof
    assume "URL_protocol h (trim raw) (base_href h) = Some ''http:''"
    then show ?thesis
      using ne nohash by (simp add: normalizeSafeUrl_def Let_def SAFE_PROTOCOLS_def)
  next
    assume "URL_protocol h (trim raw) (base_href h) = Some ''https:''"
    then show ?thesis
      using ne nohash by (simp add: normalizeSafeUrl_def Let_def SAFE_PROTOCOLS_def)
  qed
  then show ?thesis by (simp add: isSafeUrl_def)
qed

theorem protocol_relative_safe_on_http_base_witness:
  "normalizeSafeUrl server_host '' //cdn.example.com/lib.js'' = Some ''//cdn.example.com/lib.js''
   \<and> isSafeUrl server_host '' //cdn.example.com/lib.js''"
proof -
  have t: "trim '' //cdn.example.com/lib.js'' = ''//cdn.example.com/lib.js''"
    by (simp add: trim_def isWhiteSpace_def)
  have a: "startsWith (trim '' //cdn.example.com/lib.js'') ''//''"
    unfolding t by (simp add: startsWith_def)
  have b: "URL_accepts server_host (trim '' //cdn.example.com/lib.js'') (base_href server_host)"
    by (simp add: server_host_def)
  have c: "location_href server_host = None
           \<or> URL_scheme (base_href server_host) = Some ''http''
           \<or> URL_scheme (base_href server_host) = Some ''https''"
    by (simp add: server_host_def)
  show ?thesis
    using protocol_relative_safe_on_http_base [OF a b c] unfolding t by simp
qed

text \<open>On a page opened from the file system the same reference resolves to a \<open>file:\<close>
  URL: the parser accepts it, and the validator rejects it.\<close>

theorem protocol_relative_counterexample:
  "startsWith (trim ''//host/path'') ''//''
   \<and> URL_accepts file_page_host (trim ''//host/path'') (base_href file_page_host)
   \<and> URL_protocol file_page_host (trim ''//host/path'') (base_href file_page_host)
       = Some ''file:''
   \<and> normalizeSafeUrl file_page_host ''//host/path'' = None
   \<and> \<not> isSafeUrl file_page_host ''//host/path''"
  by (simp add: url_eval)

section \<open>Facts about the response validator\<close>

lemmas val_eval = typeof_object_def typeof_string_def getProp_def truthy_def
  isNonEmptyString_def isStringOrNull_def isValidActionType_def isValidTarget_def
  validateLinkAction_def validateCallbackAction_def validateAction_def
  validateMessageDetailsResponse_def

lemma isNonEmptyString_iff: "isNonEmptyString v \<longleftrightarrow> (\<exists>s. v = JString s \<and> s \<noteq> [])"
  by (cases v) (simp_all add: isNonEmptyString_def)

lemma typeof_string_iff: "typeof_string v \<longleftrightarrow> (\<exists>s. v = JString s)"
  by (cases v) (simp_all add: typeof_string_def)

lemma isValidTarget_iff:
  "isValidTarget v \<longleftrightarrow> v = JUndefined \<or> (\<exists>t. v = JString t \<and> startsWith t ''_'')"
  by (cases v) (auto simp: isValidTarget_def startsWith_def)

lemma object_check_iff: "\<not> (\<not> typeof_object v \<or> v = JNull) \<longleftrightarrow> (\<exists>a. v = JObject a)"
  by (cases v) (simp_all add: typeof_object_def)

lemma javascript_unsafe:
  assumes "URL_scheme (trim u) = Some ''javascript''"
  shows "\<not> isSafeUrl h u"
  using other_scheme_rejected [OF assms, of h] by (simp add: isSafeUrl_def)

lemma validateLinkAction_spec:
  "validateLinkAction h H action \<longleftrightarrow>
     (\<exists>a. action = JObject a)
     \<and> getProp H action ''kind'' = JString ''link''
     \<and> (\<exists>s. getProp H action ''label'' = JString s \<and> s \<noteq> [])
     \<and> (getProp H action ''type'' = JString ''primary''
          \<or> getProp H action ''type'' = JString ''secondary'')
     \<and> (\<exists>u. getProp H action ''href'' = JString u \<and> u \<noteq> [] \<and> isSafeUrl h u)
     \<and> (getProp H action ''target'' = JUndefined
          \<or> (\<exists>t. getProp H action ''target'' = JString t \<and> startsWith t ''_''))
     \<and> (getProp H action ''rel'' = JUndefined \<or> (\<exists>s. getProp H action ''rel'' = JString s))
     \<and> (getProp H action ''id'' = JUndefined \<or> (\<exists>s. getProp H action ''id'' = JString s))"
proof -
  have href: "((\<exists>s. getProp H action ''href'' = JString s \<and> s \<noteq> [])
               \<and> (case getProp H action ''href'' of JString u \<Rightarrow> isSafeUrl h u | _ \<Rightarrow> False))
              \<longleftrightarrow> (\<exists>u. getProp H action ''href'' = JString u \<and> u \<noteq> [] \<and> isSafeUrl h u)"
    by (cases "getProp H action ''href''") simp_all
  have "validateLinkAction h H action \<longleftrightarrow>
          \<not> (\<not> typeof_object action \<or> action = JNull)
          \<and> getProp H action ''kind'' = JString ''link''
          \<and> isNonEmptyString (getProp H action ''label'')
          \<and> isValidActionType (getProp H action ''type'')
          \<and> (isNonEmptyString (getProp H action ''href'')
               \<and> (case getProp H action ''href'' of JString u \<Rightarrow> isSafeUrl h u | _ \<Rightarrow> False))
          \<and> isValidTarget (getProp H action ''target'')
          \<and> (getProp H action ''rel'' = JUndefined \<or> typeof_string (getProp H action ''rel''))
          \<and> (getProp H action ''id'' = JUndefined \<or> typeof_string (getProp H action ''id''))"
    unfolding validateLinkAction_def by (simp only: if_bool_eq_conj) blast
  then have "validateLinkAction h H action \<longleftrightarrow>
      (\<exists>a. action = JObject a)
      \<and> getProp H action ''kind'' = JString ''link''
      \<and> (\<exists>s. getProp H action ''label'' = JString s \<and> s \<noteq> [])
      \<and> (getProp H action ''type'' = JString ''primary''
           \<or> getProp H action ''type'' = JString ''secondary'')
      \<and> ((\<exists>s. getProp H action ''href'' = JString s \<and> s \<noteq> [])
           \<and> (case getProp H action ''href'' of JString u \<Rightarrow> isSafeUrl h u | _ \<Rightarrow> False))
      \<and> (getProp H action ''target'' = JUndefined
           \<or> (\<exists>t. getProp H action ''target'' = JString t \<and> startsWith t ''_''))
      \<and> (getProp H action ''rel'' = JUndefined \<or> (\<exists>s. getProp H action ''rel'' = JString s))
      \<and> (getProp H action ''id'' = JUndefined \<or> (\<exists>s. getProp H action ''id'' = JString s))"
    unfolding object_check_iff isNonEmptyString_iff isValidTarget_iff typeof_string_iff
      isValidActionType_def .
  then show ?thesis unfolding href .
qed

lemma javascript_link_invalid:
  assumes "getProp H action ''kind'' = JString ''link''"
    and "getProp H action ''href'' = JString u"
    and "URL_scheme (trim u) = Some ''javascript''"
  shows "action \<noteq> JUndefined \<and> \<not> validateAction h H action"
proof -
  have "\<not> validateLinkAction h H action"
    using assms(2) javascript_unsafe [OF assms(3), of h]
    by (simp add: validateLinkAction_def)
  moreover have "\<not> validateCallbackAction H action"
    using assms(1) by (simp add: validateCallbackAction_def)
  moreover have "action \<noteq> JUndefined"
    using assms(1) by (auto simp: getProp_def)
  ultimately show ?thesis by (simp add: validateAction_def)
qed

lemma javascript_payload_rejected:
  assumes "slot = ''primaryAction'' \<or> slot = ''secondaryAction''"
    and "getProp H (getProp H response slot) ''kind'' = JString ''link''"
    and "getProp H (getProp H response slot) ''href'' = JString u"
    and "URL_scheme (trim u) = Some ''javascript''"
  shows "\<exists>e. validateMessageDetailsResponse h H response = Invalid e"
proof -
  from javascript_link_invalid [OF assms(2,3,4), of h]
  have bad: "getProp H response slot \<noteq> JUndefined"
       "\<not> validateAction h H (getProp H response slot)"
    by simp_all
  from assms(1) show ?thesis
  proof
    assume "slot = ''primaryAction''"
    with bad show ?thesis by (simp add: validateMessageDetailsResponse_def)
  next
    assume "slot = ''secondaryAction''"
    with bad show ?thesis by (simp add: validateMessageDetailsResponse_def)
  qed
qed

text \<open>
  Claim C7. A value passes \<open>validateLinkAction\<close> exactly when it is an object whose \<open>kind\<close>
  is \<open>"link"\<close>, whose \<open>label\<close> is a non-empty string, whose \<open>type\<close> is \<open>"primary"\<close> or
  \<open>"secondary"\<close>, whose \<open>href\<close> is a non-empty string that passes \<open>isSafeUrl\<close>, whose
  \<open>target\<close> is absent or a string beginning with an underscore, and whose \<open>rel\<close> and \<open>id\<close>
  are absent or strings. A payload whose primary or secondary action is a link with a
  \<open>javascript:\<close> URL as \<open>href\<close> is rejected by \<open>validateMessageDetailsResponse\<close>.
\<close>

theorem link_action_validation:
  "(validateLinkAction h H action \<longleftrightarrow>
      (\<exists>a. action = JObject a)
      \<and> getProp H action ''kind'' = JString ''link''
      \<and> (\<exists>s. getProp H action ''label'' = JString s \<and> s \<noteq> [])
      \<and> (getProp H action ''type'' = JString ''primary''
           \<or> getProp H action ''type'' = JString ''secondary'')
      \<and> (\<exists>u. getProp H action ''href'' = JString u \<and> u \<noteq> [] \<and> isSafeUrl h u)
      \<and> (getProp H action ''target'' = JUndefined
           \<or> (\<exists>t. getProp H action ''target'' = JString t \<and> startsWith t ''_''))
      \<and> (getProp H action ''rel'' = JUndefined \<or> (\<exists>s. getProp H action ''rel'' = JString s))
      \<and> (getProp H action ''id'' = JUndefined \<or> (\<exists>s. getProp H action ''id'' = JString s)))
   \<and> ((slot = ''primaryAction'' \<or> slot = ''secondaryAction'')
        \<and> getProp H (getProp H response slot) ''kind'' = JString ''link''
        \<and> getProp H (getProp H response slot) ''href'' = JString u
        \<and> URL_scheme (trim u) = Some ''javascript''
       \<longrightarrow> (\<exists>e. validateMessageDetailsResponse h H response = Invalid e))"
  using validateLinkAction_spec [of h H action]
    javascript_payload_rejected [of slot H response u h]
  by blast

theorem link_action_validation_witness:
  "validateLinkAction server_host sample_heap (JObject 2)
   \<and> (\<exists>e. validateMessageDetailsResponse server_host sample_heap (JObject 0) = Invalid e)"
proof -
  have safe: "isSafeUrl server_host ''https://example.com/docs''"
    by (simp add: url_eval)
  have js: "URL_scheme (trim ''javascript:alert(1)'') = Some ''javascript''"
    by (simp add: url_eval)
  have link: "(\<exists>a. JObject 2 = JObject a)
      \<and> getProp sample_heap (JObject 2) ''kind'' = JString ''link''
      \<and> (\<exists>s. getProp sample_heap (JObject 2) ''label'' = JString s \<and> s \<noteq> [])
      \<and> (getProp sample_heap (JObject 2) ''type'' = JString ''primary''
           \<or> getProp sample_heap (JObject 2) ''type'' = JString ''secondary'')
      \<and> (\<exists>u. getProp sample_heap (JObject 2) ''href'' = JString u \<and> u \<noteq> []
              \<and> isSafeUrl server_host u)
      \<and> (getProp sample_heap (JObject 2) ''target'' = JUndefined
           \<or> (\<exists>t. getProp sample_heap (JObject 2) ''target'' = JString t \<and> startsWith t ''_''))
      \<and> (getProp sample_heap (JObject 2) ''rel'' = JUndefined
           \<or> (\<exists>s. getProp sample_heap (JObject 2) ''rel'' = JString s))
      \<and> (getProp sample_heap (JObject 2) ''id'' = JUndefined
           \<or> (\<exists>s. getProp sample_heap (JObject 2) ''id'' = JString s))"
    using safe by (simp add: getProp_def sample_heap_def startsWith_def)
  have prem: "(''primaryAction'' = ''primaryAction'' \<or> ''primaryAction'' = ''secondaryAction'')
        \<and> getProp sample_heap (getProp sample_heap (JObject 0) ''primaryAction'') ''kind''
            = JString ''link''
        \<and> getProp sample_heap (getProp sample_heap (JObject 0) ''primaryAction'') ''href''
            = JString ''javascript:alert(1)''
        \<and> URL_scheme (trim ''javascript:alert(1)'') = Some ''javascript''"
    using js by (simp add: getProp_def sample_heap_def)
  show ?thesis
    using link prem
      link_action_validation [of server_host sample_heap "JObject 2"
        "''primaryAction''" "JObject 0" "''javascript:alert(1)''"]
    by blast
qed

lemma firstFailure_unfold:
  "firstFailure h H r =
     (if checkFails h H r ChkResponse then Some ChkResponse
      else if checkFails h H r ChkMessageId then Some ChkMessageId
      else if checkFails h H r ChkTitle then Some ChkTitle
      else if checkFails h H r ChkSnippet then Some ChkSnippet
      else if checkFails h H r ChkCreatedAt then Some ChkCreatedAt
      else if checkFails h H r ChkBodyHtml then Some ChkBodyHtml
      else if checkFails h H r ChkCategory then Some ChkCategory
      else if checkFails h H r ChkPrimaryAction then Some ChkPrimaryAction
      else if checkFails h H r ChkSecondaryAction then Some ChkSecondaryAction
      else None)"
  unfolding firstFailure_def checkOrder_def by (simp only: find.simps)

lemma validate_by_first_failure:
  "validateMessageDetailsResponse h H r =
     (case firstFailure h H r of None \<Rightarrow> Valid r | Some c \<Rightarrow> Invalid (checkError c))"
  unfolding firstFailure_unfold validateMessageDetailsResponse_def
  by (simp only: checkFails.simps checkError.simps option.case if_distrib [of "case_option _ _"]
      cong: if_cong)

lemma error_names_field: "startsWith (checkError c) (checkField c)"
  by (cases c) (simp_all add: startsWith_def)

lemma find_Some_split:
  "find P xs = Some x \<Longrightarrow>
     P x \<and> (\<exists>pre post. xs = pre @ x # post \<and> list_all (\<lambda>y. \<not> P y) pre)"
proof (induction xs)
  case Nil
  then show ?case by simp
next
  case (Cons a xs)
  show ?case
  proof (cases "P a")
    case True
    with Cons.prems have "a = x" by simp
    with True have "P x \<and> a # xs = [] @ x # xs \<and> list_all (\<lambda>y. \<not> P y) []" by simp
    then show ?thesis by blast
  next
    case False
    with Cons.prems have "find P xs = Some x" by simp
    from Cons.IH [OF this] obtain pre post where
      "P x" "xs = pre @ x # post" "list_all (\<lambda>y. \<not> P y) pre" by blast
    with False have "P x \<and> a # xs = (a # pre) @ x # post \<and> list_all (\<lambda>y. \<not> P y) (a # pre)"
      by simp
    then show ?thesis by blast
  qed
qed

lemma find_None_all: "find P xs = None \<Longrightarrow> list_all (\<lambda>y. \<not> P y) xs"
  by (induction xs) (simp_all split: if_splits)

text \<open>
  Claim C8. \<open>validateMessageDetailsResponse\<close> returns the diagnostic of the first check that
  fails in the order response, \<open>messageId\<close>, \<open>title\<close>, \<open>snippet\<close>, \<open>createdAt\<close>,
  \<open>bodyHtml\<close>, \<open>category\<close>, \<open>primaryAction\<close>, \<open>secondaryAction\<close>: that check fails and
  all checks before it pass, whatever the later ones do. Each diagnostic begins with the
  name of its field. When no check fails the result is valid and its data is the input
  value itself.
\<close>

theorem validation_order:
  "validateMessageDetailsResponse h H r =
     (case firstFailure h H r of None \<Rightarrow> Valid r | Some c \<Rightarrow> Invalid (checkError c))
   \<and> startsWith (checkError c) (checkField c)
   \<and> (firstFailure h H r = Some c \<longrightarrow>
        checkFails h H r c
        \<and> (\<exists>pre post. checkOrder = pre @ c # post
              \<and> list_all (\<lambda>d. \<not> checkFails h H r d) pre))
   \<and> (firstFailure h H r = None \<longrightarrow> list_all (\<lambda>d. \<not> checkFails h H r d) checkOrder)"
  using validate_by_first_failure [of h H r] error_names_field [of c]
    find_Some_split [of "checkFails h H r" checkOrder c]
    find_None_all [of "checkFails h H r" checkOrder]
  unfolding firstFailure_def by blast

theorem validation_order_witness:
  "validateMessageDetailsResponse server_host broken_heap (JObject 0)
     = Invalid ''messageId must be a non-empty string''
   \<and> checkFails server_host broken_heap (JObject 0) ChkMessageId
   \<and> checkFails server_host broken_heap (JObject 0) ChkTitle
   \<and> validateMessageDetailsResponse server_host sample_heap (JObject 3) = Valid (JObject 3)"
proof -
  have ff1: "firstFailure server_host broken_heap (JObject 0) = Some ChkMessageId"
    by (simp add: firstFailure_unfold val_eval broken_heap_def)
  have title: "checkFails server_host broken_heap (JObject 0) ChkTitle"
    by (simp add: val_eval broken_heap_def)
  have safe: "isSafeUrl server_host ''https://example.com/docs''"
    by (simp add: url_eval)
  have act: "validateAction server_host sample_heap (JObject 2)"
    using safe by (simp add: val_eval sample_heap_def startsWith_def)
  have ff2: "firstFailure server_host sample_heap (JObject 3) = None"
    using act by (simp add: firstFailure_unfold typeof_object_def typeof_string_def getProp_def
        isNonEmptyString_def isStringOrNull_def sample_heap_def)
  show ?thesis
    using ff1 ff2 title
      validation_order [of server_host broken_heap "JObject 0" ChkMessageId]
      validation_order [of server_host sample_heap "JObject 3" ChkMessageId]
    by simp
qed

lemma validateAction_heap_cong:
  "H a = H' a \<Longrightarrow> validateAction h H (JObject a) = validateAction h H' (JObject a)"
  by (simp add: validateAction_def validateLinkAction_def validateCallbackAction_def getProp_def)

lemma map_of_delete_key:
  "map_of (filter (\<lambda>kv. fst kv \<noteq> key) ps) k = (if k = key then None else map_of ps k)"
  by (induction ps) auto

lemma getProp_fresh:
  "getProp (H(n := ps)) (JObject n) key = (case map_of ps key of Some x \<Rightarrow> x | None \<Rightarrow> JUndefined)"
  by (simp add: getProp_def)

text \<open>Whether a slot of the copy is deleted: for a slot that is absent or an object of the
  heap, the test of the source is the failure of \<open>validateAction\<close> on the original heap.\<close>

lemma slot_test:
  assumes "actionSlot st v" and "n = next_free st"
  shows "(truthy v \<and> \<not> validateAction h ((objects st)(n := ps)) v)
         \<longleftrightarrow> \<not> validateAction h (objects st) v"
proof (cases v)
  case JUndefined
  then show ?thesis by (simp add: truthy_def validateAction_def)
next
  case (JObject a)
  with assms have "a \<noteq> n" by (simp add: actionSlot_def)
  then have "validateAction h ((objects st)(n := ps)) (JObject a)
             = validateAction h (objects st) (JObject a)"
    by (intro validateAction_heap_cong) simp
  with JObject show ?thesis by (simp add: truthy_def)
qed (use assms in \<open>simp_all add: actionSlot_def\<close>)

lemma sanitize_response_result:
  assumes "r < next_free st"
    and "actionSlot st (getProp (objects st) (JObject r) ''primaryAction'')"
    and "actionSlot st (getProp (objects st) (JObject r) ''secondaryAction'')"
  shows "sanitizeMessageDetailsResponse h st (JObject r) =
     (st\<lparr> objects := (objects st)(next_free st :=
             filter (\<lambda>kv. \<not> ((fst kv = ''primaryAction'' \<or> fst kv = ''secondaryAction'')
                         \<and> \<not> validateAction h (objects st)
                               (getProp (objects st) (JObject r) (fst kv))))
               (objects st r)),
          next_free := Suc (next_free st) \<rparr>,
      JObject (next_free st))"
proof -
  define n where "n = next_free st"
  define ps where "ps = objects st r"
  define pa where "pa = getProp (objects st) (JObject r) ''primaryAction''"
  define sa where "sa = getProp (objects st) (JObject r) ''secondaryAction''"
  have pa_copy: "getProp ((objects st)(n := ps)) (JObject n) ''primaryAction'' = pa"
    by (simp add: getProp_def pa_def ps_def)
  have sa_copy: "getProp ((objects st)(n := qs)) (JObject n) ''secondaryAction'' = sa"
    if "qs = ps \<or> qs = filter (\<lambda>kv. fst kv \<noteq> ''primaryAction'') ps" for qs
    using that by (auto simp: getProp_def sa_def ps_def map_of_delete_key)
  have t1: "(truthy pa \<and> \<not> validateAction h ((objects st)(n := qs)) pa)
            \<longleftrightarrow> \<not> validateAction h (objects st) pa" for qs
    using assms(2) n_def unfolding pa_def by (rule slot_test)
  have t2: "(truthy sa \<and> \<not> validateAction h ((objects st)(n := qs)) sa)
            \<longleftrightarrow> \<not> validateAction h (objects st) sa" for qs
    using assms(3) n_def unfolding sa_def by (rule slot_test)
  have filt: "filter (\<lambda>kv. \<not> ((fst kv = ''primaryAction'' \<or> fst kv = ''secondaryAction'')
                         \<and> \<not> validateAction h (objects st)
                               (getProp (objects st) (JObject r) (fst kv)))) ps
       = (if \<not> validateAction h (objects st) sa
          then filter (\<lambda>kv. fst kv \<noteq> ''secondaryAction'')
                 (if \<not> validateAction h (objects st) pa
                  then filter (\<lambda>kv. fst kv \<noteq> ''primaryAction'') ps else ps)
          else (if \<not> validateAction h (objects st) pa
                then filter (\<lambda>kv. fst kv \<noteq> ''primaryAction'') ps else ps))"
  proof -
    have P: "(\<not> ((fst kv = ''primaryAction'' \<or> fst kv = ''secondaryAction'')
                 \<and> \<not> validateAction h (objects st)
                       (getProp (objects st) (JObject r) (fst kv))))
             = ((fst kv = ''primaryAction'' \<longrightarrow> validateAction h (objects st) pa)
                \<and> (fst kv = ''secondaryAction'' \<longrightarrow> validateAction h (objects st) sa))" for kv
      by (auto simp: pa_def sa_def)
    show ?thesis
      unfolding P
      by (cases "validateAction h (objects st) pa"; cases "validateAction h (objects st) sa")
         (simp_all add: conj_commute)
  qed
  have step1: "spreadCopy st (JObject r)
      = (st\<lparr>objects := (objects st)(n := ps), next_free := Suc n\<rparr>, JObject n)"
    by (simp add: spreadCopy_def ownProps_def n_def ps_def)
  show ?thesis
    unfolding sanitizeMessageDetailsResponse_def step1
    unfolding n_def [symmetric] ps_def [symmetric] filt
    by (simp add: Let_def deleteProp_def pa_copy sa_copy t1 t2)
qed

text \<open>
  Claim C9. For a record \<open>r\<close> of the heap whose two action slots are absent or objects,
  \<open>sanitizeMessageDetailsResponse\<close> returns a new object, different from \<open>r\<close>. Its own
  properties are those of \<open>r\<close>, in order and with the same values, without
  \<open>primaryAction\<close> and \<open>secondaryAction\<close> where the value of that field fails
  \<open>validateAction\<close>; every other field, \<open>messageId\<close>, \<open>bodyHtml\<close> and \<open>title\<close> among
  them, is passed through. The record \<open>r\<close> and every other object that existed before the
  call are left as they were.
\<close>

theorem sanitize_response_frame:
  assumes "r < next_free st"
    and "actionSlot st (getProp (objects st) (JObject r) ''primaryAction'')"
    and "actionSlot st (getProp (objects st) (JObject r) ''secondaryAction'')"
  shows "snd (sanitizeMessageDetailsResponse h st (JObject r)) = JObject (next_free st)
    \<and> JObject (next_free st) \<noteq> JObject r
    \<and> objects (fst (sanitizeMessageDetailsResponse h st (JObject r))) (next_free st)
        = filter (\<lambda>kv. \<not> ((fst kv = ''primaryAction'' \<or> fst kv = ''secondaryAction'')
                         \<and> \<not> validateAction h (objects st)
                               (getProp (objects st) (JObject r) (fst kv))))
            (objects st r)
    \<and> objects (fst (sanitizeMessageDetailsResponse h st (JObject r))) r = objects st r
    \<and> (\<forall>a. a < next_free st \<longrightarrow>
          objects (fst (sanitizeMessageDetailsResponse h st (JObject r))) a = objects st a)"
  using assms(1) by (simp add: sanitize_response_result [OF assms])

theorem sanitize_response_frame_witness:
  "snd (sanitizeMessageDetailsResponse server_host sample_store (JObject 0)) = JObject 4
   \<and> objects (fst (sanitizeMessageDetailsResponse server_host sample_store (JObject 0))) 4
       = [(''messageId'', JString ''msg-123''),
          (''title'', JString ''Test Title''),
          (''snippet'', JString ''Test snippet''),
          (''createdAt'', JString ''2024-01-15T10:00:00Z''),
          (''bodyHtml'', JString ''<p>Hello World</p>''),
          (''category'', JString ''updates''),
          (''secondaryAction'', JObject 2)]
   \<and> objects (fst (sanitizeMessageDetailsResponse server_host sample_store (JObject 0))) 0
       = sample_heap 0"
proof -
  have a: "(0::nat) < next_free sample_store"
    by (simp add: sample_store_def)
  have b: "actionSlot sample_store (getProp (objects sample_store) (JObject 0) ''primaryAction'')"
    by (simp add: sample_store_def sample_heap_def getProp_def actionSlot_def)
  have c: "actionSlot sample_store (getProp (objects sample_store) (JObject 0) ''secondaryAction'')"
    by (simp add: sample_store_def sample_heap_def getProp_def actionSlot_def)
  have safe: "isSafeUrl server_host ''https://example.com/docs''"
    by (simp add: url_eval)
  have unsafe: "\<not> isSafeUrl server_host ''javascript:alert(1)''"
    by (simp add: url_eval)
  have ok: "validateAction server_host sample_heap (JObject 2)"
    using safe by (simp add: val_eval sample_heap_def startsWith_def)
  have bad: "\<not> validateAction server_host sample_heap (JObject 1)"
    using unsafe by (simp add: val_eval sample_heap_def)
  have pa: "getProp sample_heap (JObject 0) ''primaryAction'' = JObject 1"
    by (simp add: getProp_def sample_heap_def)
  have sa: "getProp sample_heap (JObject 0) ''secondaryAction'' = JObject 2"
    by (simp add: getProp_def sample_heap_def)
  have obj0: "sample_heap 0 = [(''messageId'', JString ''msg-123''),
          (''title'', JString ''Test Title''),
          (''snippet'', JString ''Test snippet''),
          (''createdAt'', JString ''2024-01-15T10:00:00Z''),
          (''bodyHtml'', JString ''<p>Hello World</p>''),
          (''category'', JString ''updates''),
          (''primaryAction'', JObject 1),
          (''secondaryAction'', JObject 2)]"
    by (simp add: sample_heap_def)
  have nf: "next_free sample_store = 4" "objects sample_store = sample_heap"
    by (simp_all add: sample_store_def)
  show ?thesis
    using sanitize_response_frame [OF a b c, of server_host]
    unfolding nf obj0
    using ok bad pa sa by simp
qed

section \<open>Facts about the attribute loop\<close>

lemma removeFirst_distinct:
  "distinct (map fst as) \<Longrightarrow> removeFirst n as = filter (\<lambda>a. fst a \<noteq> n) as"
proof (induction as)
  case Nil
  then show ?case by simp
next
  case (Cons a as)
  obtain m v where a: "a = (m, v)" by (cases a)
  show ?case
  proof (cases "m = n")
    case True
    with Cons.prems a have "\<forall>b\<in>set as. fst b \<noteq> n" by auto
    then have "filter (\<lambda>a. fst a \<noteq> n) as = as" by (simp add: filter_id_conv)
    with True a show ?thesis by simp
  next
    case False
    with Cons a show ?thesis by simp
  qed
qed

text \<open>The decision of the loop for one attribute of the snapshot.\<close>

lemma isAllowedAttr_spec:
  "isAllowedAttr t n \<longleftrightarrow>
     spec_attr_listed ''*'' n \<or> startsWith n ''data-'' \<or> spec_attr_listed t n"
  by (simp add: isAllowedAttr_def spec_attr_listed_def Let_def)

lemma sanitizeAttributes_step:
  "sanitizeAttributes h t (a # rest) cur =
     sanitizeAttributes h t rest
       (if spec_attr_removed h t a then removeAttribute cur (fst a) else cur)"
  by (cases a) (auto simp: spec_attr_removed_def isAllowedAttr_spec Let_def)

lemma sanitizeAttributes_removes:
  assumes "distinct (map fst cur)"
    and "list_all (\<lambda>n. asciiLowercase n = n) (map fst snap)"
  shows "sanitizeAttributes h t snap cur =
           filter (\<lambda>a. fst a \<notin> fst ` set (filter (spec_attr_removed h t) snap)) cur"
  using assms
proof (induction snap arbitrary: cur)
  case Nil
  then show ?case by simp
next
  case (Cons a rest)
  have low: "asciiLowercase (fst a) = fst a" and rest: "list_all (\<lambda>n. asciiLowercase n = n) (map fst rest)"
    using Cons.prems(2) by simp_all
  show ?case
  proof (cases "spec_attr_removed h t a")
    case True
    have rm: "removeAttribute cur (fst a) = filter (\<lambda>b. fst b \<noteq> fst a) cur"
      using Cons.prems(1) by (simp add: removeAttribute_def low removeFirst_distinct)
    have "distinct (map fst (filter (\<lambda>b. fst b \<noteq> fst a) cur))"
      using Cons.prems(1) by (simp add: distinct_map_filter)
    from Cons.IH [OF this rest] True rm show ?thesis
      by (simp only: sanitizeAttributes_step if_True) (auto intro!: filter_cong)
  next
    case False
    from Cons.IH [OF Cons.prems(1) rest] False show ?thesis
      by (simp only: sanitizeAttributes_step if_False) simp
  qed
qed

lemma sanitizeAttributes_filter:
  assumes "parsedAttrs as"
  shows "sanitizeAttributes h t as as = filter (\<lambda>a. \<not> spec_attr_removed h t a) as"
proof -
  have d: "distinct (map fst as)" and l: "list_all (\<lambda>n. asciiLowercase n = n) (map fst as)"
    using assms by (simp_all add: parsedAttrs_def)
  have "fst a \<in> fst ` set (filter (spec_attr_removed h t) as) \<longleftrightarrow> spec_attr_removed h t a"
    if "a \<in> set as" for a
  proof
    assume "fst a \<in> fst ` set (filter (spec_attr_removed h t) as)"
    then obtain b where b: "b \<in> set as" "spec_attr_removed h t b" "fst b = fst a" by auto
    from d that b(1,3) have "b = a"
      by (metis distinct_map inj_onD)
    with b(2) show "spec_attr_removed h t a" by simp
  next
    assume "spec_attr_removed h t a"
    with that show "fst a \<in> fst ` set (filter (spec_attr_removed h t) as)" by force
  qed
  then have "filter (\<lambda>a. fst a \<notin> fst ` set (filter (spec_attr_removed h t) as)) as
             = filter (\<lambda>a. \<not> spec_attr_removed h t a) as"
    by (intro filter_cong) auto
  then show ?thesis
    using sanitizeAttributes_removes [OF d l] by simp
qed

lemma map_of_setFirst:
  "map_of (setFirst k w as) n = (if n = k then Some w else map_of as n)"
  by (induction as) auto

lemma names_setFirst: "set (map fst (setFirst k w as)) = insert k (set (map fst as))"
proof (induction as)
  case Nil
  then show ?case by simp
next
  case (Cons a as)
  obtain m v where "a = (m, v)" by (cases a)
  with Cons show ?case by (cases "m = k") auto
qed

lemma rel_lower: "asciiLowercase ''rel'' = ''rel''"
  by (simp add: asciiLowercase_def asciiLowerChar_def char_tables)

lemma target_lower: "asciiLowercase ''target'' = ''target''"
  by (simp add: asciiLowercase_def asciiLowerChar_def char_tables)

lemma addLinkSecurity_cases:
  "addLinkSecurity t as = as
   \<or> addLinkSecurity t as =
        setFirst ''rel''
          (joinWith '' '' (Set_add (Set_add (relTokens (relOf as)) ''noopener'') ''noreferrer''))
          as"
  by (simp add: addLinkSecurity_def setAttribute_def rel_lower relOf_def Let_def
      split: option.splits)

lemma addLinkSecurity_other:
  assumes "n \<noteq> ''rel''"
  shows "map_of (addLinkSecurity t as) n = map_of as n"
  using addLinkSecurity_cases [of t as] assms by (auto simp: map_of_setFirst)

lemma addLinkSecurity_names: "set (map fst as) \<subseteq> set (map fst (addLinkSecurity t as))"
proof -
  from addLinkSecurity_cases [of t as] show ?thesis
  proof
    assume "addLinkSecurity t as = as"
    then show ?thesis by simp
  next
    assume "addLinkSecurity t as =
        setFirst ''rel''
          (joinWith '' '' (Set_add (Set_add (relTokens (relOf as)) ''noopener'') ''noreferrer''))
          as"
    then show ?thesis by (simp only: names_setFirst) blast
  qed
qed

text \<open>
  Claim C3. For an element with an allowed tag and an attribute list as the parser builds
  it, the attribute loop removes exactly the attributes that the specification lists
  (event handlers, \<open>style\<close>, names outside the three allowlists, and \<open>href\<close> or \<open>src\<close>
  with an unsafe value) and keeps all others in order with their values. The element
  itself stays in the tree with these attributes, also when an \<open>href\<close> or \<open>src\<close> was
  removed; the link hardening that follows removes no attribute and changes no value
  other than that of \<open>rel\<close>.
\<close>

theorem attributes_removed_exactly:
  assumes "toLowerCase (tagName tag) \<in> set ALLOWED_TAGS"
    and "parsedAttrs as"
  shows "sanitizeAttributes h (toLowerCase (tagName tag)) as as
           = filter (\<lambda>a. \<not> spec_attr_removed h (toLowerCase (tagName tag)) a) as
    \<and> sanitizeElement h [Element tag as kids]
        = [Element tag
             (addLinkSecurity (toLowerCase (tagName tag))
                (filter (\<lambda>a. \<not> spec_attr_removed h (toLowerCase (tagName tag)) a) as))
             (sanitizeElement h kids)]
    \<and> set (map fst (filter (\<lambda>a. \<not> spec_attr_removed h (toLowerCase (tagName tag)) a) as))
        \<subseteq> set (map fst (addLinkSecurity (toLowerCase (tagName tag))
                (filter (\<lambda>a. \<not> spec_attr_removed h (toLowerCase (tagName tag)) a) as)))
    \<and> (\<forall>n. n \<noteq> ''rel'' \<longrightarrow>
          map_of (addLinkSecurity (toLowerCase (tagName tag))
                    (filter (\<lambda>a. \<not> spec_attr_removed h (toLowerCase (tagName tag)) a) as)) n
          = map_of (filter (\<lambda>a. \<not> spec_attr_removed h (toLowerCase (tagName tag)) a) as) n)"
proof -
  define t where "t = toLowerCase (tagName tag)"
  define kept where "kept = filter (\<lambda>a. \<not> spec_attr_removed h t a) as"
  have loop: "sanitizeAttributes h t as as = kept"
    unfolding kept_def using assms(2) by (rule sanitizeAttributes_filter)
  have el: "sanitizeElement h [Element tag as kids]
            = [Element tag (addLinkSecurity t kept) (sanitizeElement h kids)]"
    using assms(1) loop by (simp add: t_def)
  have names: "set (map fst kept) \<subseteq> set (map fst (addLinkSecurity t kept))"
    by (rule addLinkSecurity_names)
  have vals: "\<forall>n. n \<noteq> ''rel'' \<longrightarrow> map_of (addLinkSecurity t kept) n = map_of kept n"
    by (simp add: addLinkSecurity_other)
  from loop el names vals show ?thesis
    unfolding kept_def t_def by blast
qed

lemmas dom_eval = tagName_def asciiUppercase_def asciiUpperChar_def asciiLowercase_def
  getAttribute_def removeAttribute_def setAttribute_def parsedAttrs_def
  ALLOWED_TAGS_def ALLOWED_ATTRS_def isAllowedAttr_def spec_attr_listed_def
  spec_attr_removed_def split_ws_def Set_add_def Set_from_def tokenList_def relTokens_def
  addLinkSecurity_def relOf_def

theorem attributes_removed_exactly_witness:
  "sanitizeElement server_host
     [Element ''a''
        [(''href'', ''javascript:alert(1)''), (''target'', ''_self''), (''onclick'', ''x()''),
         (''style'', ''color:red''), (''data-id'', ''7''), (''foo'', ''bar''), (''title'', ''t'')]
        [TextNode ''Click'']]
   = [Element ''a'' [(''target'', ''_self''), (''data-id'', ''7''), (''title'', ''t'')]
        [TextNode ''Click'']]"
proof -
  define as where "as =
        [(''href'', ''javascript:alert(1)''), (''target'', ''_self''), (''onclick'', ''x()''),
         (''style'', ''color:red''), (''data-id'', ''7''), (''foo'', ''bar''), (''title'', ''t'')]"
  have t: "toLowerCase (tagName ''a'') = ''a''"
    by (simp add: url_eval dom_eval)
  have a: "toLowerCase (tagName ''a'') \<in> set ALLOWED_TAGS"
    unfolding t by (simp add: ALLOWED_TAGS_def)
  have b: "parsedAttrs as"
    by (simp add: as_def parsedAttrs_def asciiLowercase_def asciiLowerChar_def char_tables)
  have unsafe: "\<not> isSafeUrl server_host ''javascript:alert(1)''"
    by (simp add: url_eval)
  have low: "map toLowerCase [''href'', ''target'', ''onclick'', ''style'', ''data-id'', ''foo'', ''title'']
     = [''href'', ''target'', ''onclick'', ''style'', ''data-id'', ''foo'', ''title'']"
    by (simp add: toLowerCase_def toLowerChar_def char_tables)
  have filt: "filter (\<lambda>a. \<not> spec_attr_removed server_host ''a'' a) as
              = [(''target'', ''_self''), (''data-id'', ''7''), (''title'', ''t'')]"
    using unsafe low
    by (simp add: as_def spec_attr_removed_def spec_attr_listed_def ALLOWED_ATTRS_def
        startsWith_def)
  have hard: "addLinkSecurity ''a'' [(''target'', ''_self''), (''data-id'', ''7''), (''title'', ''t'')]
              = [(''target'', ''_self''), (''data-id'', ''7''), (''title'', ''t'')]"
    by (simp add: addLinkSecurity_def getAttribute_def target_lower toLowerCase_def
        toLowerChar_def char_tables)
  have kids: "sanitizeElement server_host [TextNode ''Click''] = [TextNode ''Click'']"
    by simp
  from attributes_removed_exactly [OF a b, of server_host "[TextNode ''Click'']"]
  have "sanitizeElement server_host [Element ''a'' as [TextNode ''Click'']]
        = [Element ''a''
             (addLinkSecurity (toLowerCase (tagName ''a''))
                (filter (\<lambda>a. \<not> spec_attr_removed server_host (toLowerCase (tagName ''a'')) a) as))
             (sanitizeElement server_host [TextNode ''Click''])]"
    by (rule conjunct1 [OF conjunct2])
  then have "sanitizeElement server_host [Element ''a'' as [TextNode ''Click'']]
        = [Element ''a'' [(''target'', ''_self''), (''data-id'', ''7''), (''title'', ''t'')]
             [TextNode ''Click'']]"
    unfolding t filt hard kids .
  then show ?thesis
    unfolding as_def .
qed

section \<open>Facts about the tree walk\<close>

lemma sanitizeElement_Cons:
  "sanitizeElement h (n # rest) = sanitizeElement h [n] @ sanitizeElement h rest"
  by (cases n) simp_all

lemma sanitizeElement_append:
  "sanitizeElement h (xs @ ys) = sanitizeElement h xs @ sanitizeElement h ys"
proof (induction xs)
  case Nil
  then show ?case by simp
next
  case (Cons n xs)
  have "sanitizeElement h ((n # xs) @ ys) = sanitizeElement h [n] @ sanitizeElement h (xs @ ys)"
    using sanitizeElement_Cons [of h n "xs @ ys"] by simp
  also have "\<dots> = sanitizeElement h [n] @ sanitizeElement h xs @ sanitizeElement h ys"
    by (simp add: Cons.IH)
  also have "\<dots> = sanitizeElement h (n # xs) @ sanitizeElement h ys"
    using sanitizeElement_Cons [of h n xs] by simp
  finally show ?case .
qed

lemma sanitizeElement_single: "length (sanitizeElement h [n]) = 1"
  by (cases n) simp_all

lemma sanitizeElement_length: "length (sanitizeElement h ns) = length ns"
proof (induction ns)
  case Nil
  then show ?case by simp
next
  case (Cons n ns)
  then show ?case
    using sanitizeElement_Cons [of h n ns] sanitizeElement_single [of h n] by simp
qed

lemma sanitized_tags_allowed:
  "list_all (\<lambda>e. toLowerCase (tagName (fst e)) \<in> set ALLOWED_TAGS)
     (elementsOf (sanitizeElement h ns))"
  by (induction h ns rule: sanitizeElement.induct) simp_all

lemma sanitized_text_kept:
  "concat (map textContent (sanitizeElement h ns)) = concat (map textContent ns)"
  by (induction h ns rule: sanitizeElement.induct) simp_all

text \<open>
  Claim C4. Where the walk meets an element whose tag, in lower case, is not in
  \<open>ALLOWED_TAGS\<close>, the child list afterwards holds at the same position one text node
  with the text content of that element as it was, children unsanitized. The nodes before
  and after it come out as they would without it, and the list keeps its length. The walk
  goes on into the children of an element that is kept, so the same holds at every depth
  below allowed elements: no element with a tag outside \<open>ALLOWED_TAGS\<close> is left in the
  tree, and the text content of the tree is what it was.
\<close>

theorem disallowed_element_replaced:
  "(toLowerCase (tagName tag) \<notin> set ALLOWED_TAGS \<longrightarrow>
      sanitizeElement h (pre @ Element tag as kids # post)
        = sanitizeElement h pre @ TextNode (textContent (Element tag as kids))
            # sanitizeElement h post)
   \<and> length (sanitizeElement h pre) = length pre
   \<and> length (sanitizeElement h (pre @ Element tag as kids # post))
       = length (pre @ Element tag as kids # post)
   \<and> (toLowerCase (tagName tag) \<in> set ALLOWED_TAGS \<longrightarrow>
        (\<exists>as'. sanitizeElement h (pre @ Element tag as kids # post)
                = sanitizeElement h pre @ Element tag as' (sanitizeElement h kids)
                    # sanitizeElement h post))
   \<and> list_all (\<lambda>e. toLowerCase (tagName (fst e)) \<in> set ALLOWED_TAGS)
        (elementsOf (sanitizeElement h ns))
   \<and> concat (map textContent (sanitizeElement h ns)) = concat (map textContent ns)"
proof -
  have split: "sanitizeElement h (pre @ Element tag as kids # post)
      = sanitizeElement h pre @ sanitizeElement h [Element tag as kids] @ sanitizeElement h post"
    using sanitizeElement_append [of h pre "Element tag as kids # post"]
      sanitizeElement_Cons [of h "Element tag as kids" post]
    by simp
  have out: "toLowerCase (tagName tag) \<notin> set ALLOWED_TAGS \<Longrightarrow>
      sanitizeElement h [Element tag as kids] = [TextNode (textContent (Element tag as kids))]"
    by simp
  have inn: "toLowerCase (tagName tag) \<in> set ALLOWED_TAGS \<Longrightarrow>
      \<exists>as'. sanitizeElement h [Element tag as kids] = [Element tag as' (sanitizeElement h kids)]"
    by simp
  have local: "(toLowerCase (tagName tag) \<notin> set ALLOWED_TAGS \<longrightarrow>
      sanitizeElement h (pre @ Element tag as kids # post)
        = sanitizeElement h pre @ TextNode (textContent (Element tag as kids))
            # sanitizeElement h post)
   \<and> length (sanitizeElement h pre) = length pre
   \<and> length (sanitizeElement h (pre @ Element tag as kids # post))
       = length (pre @ Element tag as kids # post)
   \<and> (toLowerCase (tagName tag) \<in> set ALLOWED_TAGS \<longrightarrow>
        (\<exists>as'. sanitizeElement h (pre @ Element tag as kids # post)
                = sanitizeElement h pre @ Element tag as' (sanitizeElement h kids)
                    # sanitizeElement h post))"
    using split out inn sanitizeElement_length [of h pre]
      sanitizeElement_length [of h "pre @ Element tag as kids # post"]
    by (auto simp del: sanitizeElement.simps textContent.simps)
  from local sanitized_tags_allowed [of h ns] sanitized_text_kept [of h ns]
  show ?thesis by (intro conjI) (elim conjE, assumption)+
qed

theorem disallowed_element_replaced_witness:
  "sanitizeElement server_host
     [TextNode ''Hello '',
      Element ''form'' [(''action'', ''https://evil.example'')]
        [Element ''b'' [(''onclick'', ''x()'')] [TextNode ''pass'', CommentNode ''c''],
         Element ''input'' [] [], TextNode ''word''],
      Element ''p'' [] [Element ''script'' [] [TextNode ''alert(1)'']]]
   = [TextNode ''Hello '',
      TextNode ''password'',
      Element ''p'' [] [TextNode ''alert(1)'']]
   \<and> (\<exists>as'. sanitizeElement server_host
               [Element ''p'' [] [Element ''script'' [] [TextNode ''alert(1)'']]]
             = [Element ''p'' as' [TextNode ''alert(1)'']])"
proof -
  have t: "toLowerCase (tagName ''form'') \<notin> set ALLOWED_TAGS"
    by (simp add: tagName_def asciiUppercase_def asciiUpperChar_def toLowerCase_def
        toLowerChar_def char_tables ALLOWED_TAGS_def)
  have tp: "toLowerCase (tagName ''p'') = ''p''" and tp2: "toLowerCase (tagName ''script'') = ''script''"
    by (simp_all add: tagName_def asciiUppercase_def asciiUpperChar_def toLowerCase_def
        toLowerChar_def char_tables)
  have allowed: "toLowerCase (tagName ''p'') \<in> set ALLOWED_TAGS"
    unfolding tp by (simp add: ALLOWED_TAGS_def)
  have inner: "sanitizeElement server_host [Element ''script'' [] [TextNode ''alert(1)'']]
               = [TextNode ''alert(1)'']"
    by (simp add: tp2 ALLOWED_TAGS_def)
  have after: "sanitizeElement server_host
                [Element ''p'' [] [Element ''script'' [] [TextNode ''alert(1)'']]]
              = [Element ''p'' [] [TextNode ''alert(1)'']]"
    by (simp add: tp tp2 ALLOWED_TAGS_def addLinkSecurity_def)
  have before: "sanitizeElement server_host [TextNode ''Hello ''] = [TextNode ''Hello '']"
    by simp
  have content: "textContent (Element ''form'' [(''action'', ''https://evil.example'')]
        [Element ''b'' [(''onclick'', ''x()'')] [TextNode ''pass'', CommentNode ''c''],
         Element ''input'' [] [], TextNode ''word'']) = ''password''"
    by simp
  from disallowed_element_replaced [of "''form''" server_host "[TextNode ''Hello '']"
      "[(''action'', ''https://evil.example'')]"
      "[Element ''b'' [(''onclick'', ''x()'')] [TextNode ''pass'', CommentNode ''c''],
         Element ''input'' [] [], TextNode ''word'']"
      "[Element ''p'' [] [Element ''script'' [] [TextNode ''alert(1)'']]]"] t
  have "sanitizeElement server_host
          ([TextNode ''Hello ''] @
           Element ''form'' [(''action'', ''https://evil.example'')]
             [Element ''b'' [(''onclick'', ''x()'')] [TextNode ''pass'', CommentNode ''c''],
              Element ''input'' [] [], TextNode ''word'']
           # [Element ''p'' [] [Element ''script'' [] [TextNode ''alert(1)'']]])
        = sanitizeElement server_host [TextNode ''Hello '']
          @ TextNode (textContent (Element ''form'' [(''action'', ''https://evil.example'')]
             [Element ''b'' [(''onclick'', ''x()'')] [TextNode ''pass'', CommentNode ''c''],
              Element ''input'' [] [], TextNode ''word'']))
          # sanitizeElement server_host
              [Element ''p'' [] [Element ''script'' [] [TextNode ''alert(1)'']]]"
    by blast
  then have first: "sanitizeElement server_host
     [TextNode ''Hello '',
      Element ''form'' [(''action'', ''https://evil.example'')]
        [Element ''b'' [(''onclick'', ''x()'')] [TextNode ''pass'', CommentNode ''c''],
         Element ''input'' [] [], TextNode ''word''],
      Element ''p'' [] [Element ''script'' [] [TextNode ''alert(1)'']]]
   = [TextNode ''Hello '',
      TextNode ''password'',
      Element ''p'' [] [TextNode ''alert(1)'']]"
    unfolding before after content by (simp only: append.simps)
  from disallowed_element_replaced [of "''p''" server_host "[]" "[]"
      "[Element ''script'' [] [TextNode ''alert(1)'']]" "[]"] allowed
  obtain as' where
    "sanitizeElement server_host
       ([] @ Element ''p'' [] [Element ''script'' [] [TextNode ''alert(1)'']] # [])
     = sanitizeElement server_host [] @ Element ''p'' as'
         (sanitizeElement server_host [Element ''script'' [] [TextNode ''alert(1)'']])
       # sanitizeElement server_host []"
    by blast
  then have "sanitizeElement server_host
               [Element ''p'' [] [Element ''script'' [] [TextNode ''alert(1)'']]]
             = [Element ''p'' as' [TextNode ''alert(1)'']]"
    unfolding inner by (simp only: append.simps sanitizeElement.simps(1))
  then have second: "\<exists>as'. sanitizeElement server_host
               [Element ''p'' [] [Element ''script'' [] [TextNode ''alert(1)'']]]
             = [Element ''p'' as' [TextNode ''alert(1)'']]"
    by (rule exI [of _ as'])
  from first second show ?thesis by (rule conjI)
qed

section \<open>Facts about rel tokens\<close>

lemma splitWhiteSpace_word:
  "list_all (\<lambda>c. \<not> isWhiteSpace c) t \<Longrightarrow>
     splitWhiteSpace b cur (t @ s) =
       (if t = [] then splitWhiteSpace b cur s else splitWhiteSpace False (cur @ t) s)"
proof (induction t arbitrary: b cur)
  case Nil
  then show ?case by simp
next
  case (Cons c t)
  then have "splitWhiteSpace b cur ((c # t) @ s) = splitWhiteSpace False (cur @ [c]) (t @ s)"
    by simp
  also have "\<dots> = splitWhiteSpace False (cur @ c # t) s"
    using Cons by (cases "t = []") simp_all
  finally show ?case by simp
qed

lemma space_is_white: "isWhiteSpace (CHR '' '')"
  by (simp add: isWhiteSpace_def)

lemma split_join:
  "ts \<noteq> [] \<Longrightarrow> list_all cleanToken ts \<Longrightarrow> splitWhiteSpace b [] (joinWith '' '' ts) = ts"
proof (induction "'' ''" ts arbitrary: b rule: joinWith.induct)
  case 1
  then show ?case by simp
next
  case (2 x)
  then have "x \<noteq> []" "list_all (\<lambda>c. \<not> isWhiteSpace c) x"
    by (simp_all add: cleanToken_def)
  with splitWhiteSpace_word [of x b "[]" "[]"] show ?case by simp
next
  case (3 x y ys)
  then have x: "x \<noteq> []" "list_all (\<lambda>c. \<not> isWhiteSpace c) x" and rest: "list_all cleanToken (y # ys)"
    by (simp_all add: cleanToken_def)
  have "splitWhiteSpace b [] (joinWith '' '' (x # y # ys))
        = splitWhiteSpace False x ('' '' @ joinWith '' '' (y # ys))"
    using splitWhiteSpace_word [OF x(2), of b "[]" "'' '' @ joinWith '' '' (y # ys)"] x(1)
    by simp
  also have "\<dots> = x # splitWhiteSpace True [] (joinWith '' '' (y # ys))"
    using space_is_white by simp
  also have "\<dots> = x # y # ys"
    using "3.hyps" [of True] rest by simp
  finally show ?case .
qed

lemma trim_clean: "list_all (\<lambda>c. \<not> isWhiteSpace c) t \<Longrightarrow> trim t = t"
proof -
  assume a: "list_all (\<lambda>c. \<not> isWhiteSpace c) t"
  have keep: "dropWhile isWhiteSpace xs = xs" if "list_all (\<lambda>c. \<not> isWhiteSpace c) xs" for xs
    using that by (cases xs) simp_all
  have "list_all (\<lambda>c. \<not> isWhiteSpace c) (rev t)"
    using a by (simp add: list_all_iff)
  then show ?thesis
    using a by (simp add: trim_def keep)
qed

lemma tokenList_join:
  assumes "list_all cleanToken ts"
  shows "tokenList (joinWith '' '' ts) = ts"
proof (cases "ts = []")
  case True
  then show ?thesis by (simp add: tokenList_def split_ws_def trim_def)
next
  case False
  then have "split_ws (joinWith '' '' ts) = ts"
    using assms by (simp add: split_ws_def split_join)
  moreover have "map trim ts = ts"
    using assms by (induction ts) (simp_all add: cleanToken_def trim_clean)
  moreover have "filter (\<lambda>t. t \<noteq> []) ts = ts"
    using assms by (induction ts) (simp_all add: cleanToken_def)
  ultimately show ?thesis by (simp add: tokenList_def)
qed

lemma splitWhiteSpace_pieces:
  "list_all (\<lambda>c. \<not> isWhiteSpace c) cur \<Longrightarrow>
     list_all (list_all (\<lambda>c. \<not> isWhiteSpace c)) (splitWhiteSpace b cur s)"
  by (induction s arbitrary: b cur) simp_all

lemma tokenList_clean: "list_all cleanToken (tokenList s)"
proof -
  have pieces: "list_all (list_all (\<lambda>c. \<not> isWhiteSpace c)) (split_ws s)"
    unfolding split_ws_def by (rule splitWhiteSpace_pieces) simp
  have "cleanToken t" if "t \<in> set (tokenList s)" for t
  proof -
    from that obtain p where p: "p \<in> set (split_ws s)" "t = trim p" "t \<noteq> []"
      by (auto simp: tokenList_def)
    from pieces p(1) have "list_all (\<lambda>c. \<not> isWhiteSpace c) p"
      by (simp add: list_all_iff)
    then have "trim p = p" "list_all (\<lambda>c. \<not> isWhiteSpace c) p"
      by (simp_all add: trim_clean)
    with p show ?thesis by (simp add: cleanToken_def)
  qed
  then show ?thesis by (simp add: list_all_iff)
qed

lemma Set_add_set: "set (Set_add xs x) = insert x (set xs)"
  by (auto simp: Set_add_def)

lemma Set_add_distinct: "distinct xs \<Longrightarrow> distinct (Set_add xs x)"
  by (simp add: Set_add_def)

lemma Set_add_clean: "list_all cleanToken xs \<Longrightarrow> cleanToken x \<Longrightarrow> list_all cleanToken (Set_add xs x)"
  by (simp add: Set_add_def)

lemma foldl_Set_add:
  "distinct acc \<Longrightarrow>
     distinct (foldl Set_add acc xs) \<and> set (foldl Set_add acc xs) = set acc \<union> set xs"
proof (induction xs arbitrary: acc)
  case Nil
  then show ?case by simp
next
  case (Cons x xs)
  from Cons.IH [OF Set_add_distinct [OF Cons.prems], of x] show ?case
    by (simp add: Set_add_set)
qed


lemma Set_from_facts: "distinct (Set_from xs) \<and> set (Set_from xs) = set xs"
  using foldl_Set_add [of "[]" xs] by (simp add: Set_from_def)


lemma Set_from_clean: "list_all cleanToken xs \<Longrightarrow> list_all cleanToken (Set_from xs)"
  using Set_from_facts [of xs] by (simp add: list_all_iff)

lemma security_tokens_clean: "cleanToken ''noopener''" "cleanToken ''noreferrer''"
  by (simp_all add: cleanToken_def isWhiteSpace_def)

text \<open>The token set that the hardening writes into \<open>rel\<close>.\<close>

lemma hardened_tokens:
  fixes rel :: string
  defines "toks \<equiv> Set_add (Set_add (relTokens rel) ''noopener'') ''noreferrer''"
  shows "tokenList (joinWith '' '' toks) = toks"
    and "distinct toks"
    and "set toks = set (tokenList rel) \<union> {''noopener'', ''noreferrer''}"
proof -
  have "list_all cleanToken (relTokens rel)"
    unfolding relTokens_def by (rule Set_from_clean) (rule tokenList_clean)
  then have "list_all cleanToken toks"
    unfolding toks_def by (intro Set_add_clean security_tokens_clean)
  then show "tokenList (joinWith '' '' toks) = toks" by (rule tokenList_join)
  show "distinct toks"
    unfolding toks_def relTokens_def by (intro Set_add_distinct) (simp add: Set_from_facts)
  show "set toks = set (tokenList rel) \<union> {''noopener'', ''noreferrer''}"
    unfolding toks_def relTokens_def by (auto simp: Set_add_set Set_from_facts)
qed

section \<open>Facts about the link hardening\<close>

lemma addLinkSecurity_blank:
  assumes "getAttribute as ''target'' = Some tv" and "toLowerCase tv = ''_blank''"
  shows "addLinkSecurity ''a'' as =
           setFirst ''rel''
             (joinWith '' '' (Set_add (Set_add (relTokens (relOf as)) ''noopener'') ''noreferrer''))
             as"
proof -
  from assms(2) have "tv \<noteq> []" by (auto simp: toLowerCase_def)
  with assms show ?thesis
    by (simp add: addLinkSecurity_def setAttribute_def rel_lower relOf_def Let_def)
qed

lemma addLinkSecurity_target:
  "getAttribute (addLinkSecurity t as) ''target'' = getAttribute as ''target''"
  by (simp add: getAttribute_def target_lower addLinkSecurity_other)

lemma hardened_after_setFirst:
  fixes as :: attrs
  defines "as' \<equiv> setFirst ''rel''
     (joinWith '' '' (Set_add (Set_add (relTokens (relOf as)) ''noopener'') ''noreferrer'')) as"
  shows "set (tokenList (relOf as')) = set (tokenList (relOf as)) \<union> {''noopener'', ''noreferrer''}"
    and "distinct (tokenList (relOf as'))"
proof -
  have "relOf as' =
      joinWith '' '' (Set_add (Set_add (relTokens (relOf as)) ''noopener'') ''noreferrer'')"
    by (simp add: relOf_def getAttribute_def rel_lower as'_def map_of_setFirst)
  then have eq: "tokenList (relOf as')
      = Set_add (Set_add (relTokens (relOf as)) ''noopener'') ''noreferrer''"
    by (simp add: hardened_tokens(1))
  show "set (tokenList (relOf as')) = set (tokenList (relOf as)) \<union> {''noopener'', ''noreferrer''}"
    unfolding eq by (rule hardened_tokens(3))
  show "distinct (tokenList (relOf as'))"
    unfolding eq by (rule hardened_tokens(2))
qed

lemma relOf_present:
  "relOf (setFirst ''rel'' w as) = w \<and> getAttribute (setFirst ''rel'' w as) ''rel'' = Some w"
  by (simp add: relOf_def getAttribute_def rel_lower map_of_setFirst)

lemma addLinkSecurity_hardened:
  "hardened (tag, addLinkSecurity (toLowerCase (tagName tag)) as)"
proof (cases "blankAnchor (tag, addLinkSecurity (toLowerCase (tagName tag)) as)")
  case False
  then show ?thesis by (simp add: hardened_def)
next
  case True
  then have t: "toLowerCase (tagName tag) = ''a''"
    by (simp add: blankAnchor_def)
  from True obtain tv where tv: "getAttribute as ''target'' = Some tv" "toLowerCase tv = ''_blank''"
    by (auto simp: blankAnchor_def addLinkSecurity_target split: option.splits)
  define w where
    "w = joinWith '' '' (Set_add (Set_add (relTokens (relOf as)) ''noopener'') ''noreferrer'')"
  have out: "addLinkSecurity (toLowerCase (tagName tag)) as = setFirst ''rel'' w as"
    unfolding t w_def using tv by (rule addLinkSecurity_blank)
  have rel: "getAttribute (setFirst ''rel'' w as) ''rel'' = Some w" "relOf (setFirst ''rel'' w as) = w"
    using relOf_present [of w as] by simp_all
  have toks: "set (tokenList w) = set (tokenList (relOf as)) \<union> {''noopener'', ''noreferrer''}"
    "distinct (tokenList w)"
    using hardened_after_setFirst [of as] unfolding w_def [symmetric] rel(2) by simp_all
  from True show ?thesis
    unfolding hardened_def out by (simp add: rel toks)
qed

lemma elementsOf_Cons: "elementsOf (n # rest) = elementsOf [n] @ elementsOf rest"
  by (cases n) simp_all

lemma sanitized_all_hardened: "list_all hardened (elementsOf (sanitizeElement h ns))"
proof (induction h ns rule: sanitizeElement.induct)
  case (4 h tag as kids rest)
  show ?case
  proof (cases "toLowerCase (tagName tag) \<in> set ALLOWED_TAGS")
    case True
    with 4 addLinkSecurity_hardened [of tag "sanitizeAttributes h (toLowerCase (tagName tag)) as as"]
    show ?thesis by simp
  next
    case False
    with 4 show ?thesis by simp
  qed
qed simp_all

lemma map_of_filter_keep:
  "(\<And>v. P (k, v)) \<Longrightarrow> map_of (filter P as) k = map_of as k"
  by (induction as) auto

lemma anchor_keeps_target_rel:
  "\<not> spec_attr_removed h ''a'' (''target'', v)" "\<not> spec_attr_removed h ''a'' (''rel'', v)"
  by (simp_all add: spec_attr_removed_def spec_attr_listed_def ALLOWED_ATTRS_def startsWith_def
      toLowerCase_def toLowerChar_def char_tables)

lemma anchor_allowed: "''a'' \<in> set ALLOWED_TAGS"
  by (simp add: ALLOWED_TAGS_def)

lemma blank_anchor_tokens:
  assumes "parsedAttrs as" and "blankAnchor (tag, as)"
  shows "\<exists>as'. sanitizeElement h [Element tag as kids] = [Element tag as' (sanitizeElement h kids)]
           \<and> blankAnchor (tag, as')
           \<and> set (tokenList (relOf as'))
               = set (tokenList (relOf as)) \<union> {''noopener'', ''noreferrer''}
           \<and> distinct (tokenList (relOf as'))"
proof -
  from assms(2) have t: "toLowerCase (tagName tag) = ''a''"
    by (simp add: blankAnchor_def)
  from assms(2) obtain tv where tv: "getAttribute as ''target'' = Some tv" "toLowerCase tv = ''_blank''"
    by (auto simp: blankAnchor_def split: option.splits)
  define kept where "kept = filter (\<lambda>a. \<not> spec_attr_removed h ''a'' a) as"
  have loop: "sanitizeAttributes h ''a'' as as = kept"
    unfolding kept_def using assms(1) by (rule sanitizeAttributes_filter)
  have target: "getAttribute kept ''target'' = Some tv"
    using tv(1)
    by (simp add: kept_def getAttribute_def target_lower map_of_filter_keep
        anchor_keeps_target_rel)
  have rel: "relOf kept = relOf as"
    by (simp add: kept_def relOf_def getAttribute_def rel_lower map_of_filter_keep
        anchor_keeps_target_rel)
  define as' where "as' = addLinkSecurity ''a'' kept"
  have out: "as' = setFirst ''rel''
      (joinWith '' '' (Set_add (Set_add (relTokens (relOf kept)) ''noopener'') ''noreferrer'')) kept"
    unfolding as'_def using target tv(2) by (rule addLinkSecurity_blank)
  have el: "sanitizeElement h [Element tag as kids] = [Element tag as' (sanitizeElement h kids)]"
    using anchor_allowed by (simp add: t loop as'_def)
  have "getAttribute as' ''target'' = Some tv"
    unfolding as'_def using target by (simp add: addLinkSecurity_target)
  then have blank: "blankAnchor (tag, as')"
    using tv(2) t by (simp add: blankAnchor_def)
  have toks: "set (tokenList (relOf as'))
               = set (tokenList (relOf as)) \<union> {''noopener'', ''noreferrer''}"
      "distinct (tokenList (relOf as'))"
    using hardened_after_setFirst [of kept] by (simp_all add: out rel)
  from el blank toks show ?thesis by blast
qed

text \<open>
  Claim C5. In the tree that \<open>sanitizeElement\<close> leaves, every anchor whose \<open>target\<close> is
  \<open>_blank\<close> (compared case-insensitively) carries a \<open>rel\<close> attribute whose token list holds
  \<open>noopener\<close> and \<open>noreferrer\<close> and holds no token twice. For an anchor with an attribute
  list as the parser builds it, the tokens of the new \<open>rel\<close> are those of the old one
  together with these two.
\<close>

theorem blank_anchor_hardened:
  "list_all hardened (elementsOf (sanitizeElement h ns))
   \<and> (parsedAttrs as \<and> blankAnchor (tag, as) \<longrightarrow>
        (\<exists>as'. sanitizeElement h [Element tag as kids]
                  = [Element tag as' (sanitizeElement h kids)]
           \<and> blankAnchor (tag, as')
           \<and> set (tokenList (relOf as'))
               = set (tokenList (relOf as)) \<union> {''noopener'', ''noreferrer''}
           \<and> distinct (tokenList (relOf as'))))"
  using sanitized_all_hardened [of h ns] blank_anchor_tokens [of as tag h kids]
  by blast

theorem blank_anchor_hardened_witness:
  "list_all hardened
     (elementsOf (sanitizeElement server_host
        [Element ''a''
           [(''href'', ''https://example.com''), (''target'', ''_BLANK''), (''rel'', ''external'')]
           [TextNode ''x'']]))
   \<and> (\<exists>as'. sanitizeElement server_host
        [Element ''a''
           [(''href'', ''https://example.com''), (''target'', ''_BLANK''), (''rel'', ''external'')]
           [TextNode ''x'']]
        = [Element ''a'' as' [TextNode ''x'']]
      \<and> set (tokenList (relOf as')) = {''external'', ''noopener'', ''noreferrer''}
      \<and> distinct (tokenList (relOf as')))"
proof -
  define as where "as =
    [(''href'', ''https://example.com''), (''target'', ''_BLANK''), (''rel'', ''external'')]"
  have p: "parsedAttrs as"
    by (simp add: as_def parsedAttrs_def asciiLowercase_def asciiLowerChar_def char_tables)
  have t: "toLowerCase (tagName ''a'') = ''a''"
    by (simp add: tagName_def asciiUppercase_def asciiUpperChar_def toLowerCase_def
        toLowerChar_def char_tables)
  have tv: "getAttribute as ''target'' = Some ''_BLANK''"
    by (simp add: as_def getAttribute_def target_lower)
  have low: "toLowerCase ''_BLANK'' = ''_blank''"
    by (simp add: toLowerCase_def toLowerChar_def char_tables)
  have b: "blankAnchor (''a'', as)"
    by (simp add: blankAnchor_def t tv low)
  have old: "tokenList (relOf as) = [''external'']"
    by (simp add: as_def relOf_def getAttribute_def rel_lower tokenList_def split_ws_def
        trim_def isWhiteSpace_def)
  have kids: "sanitizeElement server_host [TextNode ''x''] = [TextNode ''x'']"
    by simp
  note inst = blank_anchor_hardened [of server_host "[Element ''a'' as [TextNode ''x'']]"
      as "''a''" "[TextNode ''x'']"]
  from inst have all: "list_all hardened
      (elementsOf (sanitizeElement server_host [Element ''a'' as [TextNode ''x'']]))"
    by (rule conjunct1)
  from inst p b obtain as' where
    "sanitizeElement server_host [Element ''a'' as [TextNode ''x'']]
       = [Element ''a'' as' (sanitizeElement server_host [TextNode ''x''])]"
    "set (tokenList (relOf as')) = set (tokenList (relOf as)) \<union> {''noopener'', ''noreferrer''}"
    "distinct (tokenList (relOf as'))"
    by blast
  then have "sanitizeElement server_host [Element ''a'' as [TextNode ''x'']]
       = [Element ''a'' as' [TextNode ''x'']]
     \<and> set (tokenList (relOf as')) = {''external'', ''noopener'', ''noreferrer''}
     \<and> distinct (tokenList (relOf as'))"
    unfolding kids old by auto
  then have "\<exists>as'. sanitizeElement server_host [Element ''a'' as [TextNode ''x'']]
       = [Element ''a'' as' [TextNode ''x'']]
     \<and> set (tokenList (relOf as')) = {''external'', ''noopener'', ''noreferrer''}
     \<and> distinct (tokenList (relOf as'))"
    by (rule exI [of _ as'])
  with all show ?thesis
    unfolding as_def by (rule conjI)
qed

section \<open>Facts about the output of the sanitizer\<close>



lemma escapeChar_no_lt: "CHR ''<'' \<notin> set (escapeChar c)"
  by (auto simp: escapeChar_def ESCAPE_LOOKUP_def)

lemma escapeHtml_no_lt: "CHR ''<'' \<notin> set (escapeHtml x)"
  by (simp add: escapeHtml_def escapeChar_no_lt)

lemma sanitizeHtml_degraded: "sanitizeHtml h None x = escapeHtml x"
  by (simp add: sanitizeHtml_def escapeHtml_def)

lemma str_includes_set: "str_includes s p \<Longrightarrow> set p \<subseteq> set s"
proof (induction s)
  case Nil
  then show ?case by simp
next
  case (Cons c cs)
  from Cons.prems have "startsWith (c # cs) p \<or> str_includes cs p" by simp
  then show ?case
  proof
    assume "startsWith (c # cs) p"
    then have "p = take (length p) (c # cs)" by (simp add: startsWith_def)
    then have "set p \<subseteq> set (c # cs)" by (metis set_take_subset)
    then show ?thesis .
  next
    assume "str_includes cs p"
    with Cons.IH show ?thesis by auto
  qed
qed

lemma degraded_no_opener:
  "list_all (\<lambda>p. \<not> str_includes (sanitizeHtml h None x) p) dangerousOpeners"
proof -
  have "\<not> str_includes (escapeHtml x) p" if "CHR ''<'' \<in> set p" for p
    using that str_includes_set [of "escapeHtml x" p] escapeHtml_no_lt [of x] by auto
  then show ?thesis
    by (simp add: sanitizeHtml_degraded dangerousOpeners_def)
qed

lemma list_all_setFirst: "list_all P as \<Longrightarrow> P (k, w) \<Longrightarrow> list_all P (setFirst k w as)"
  by (induction as) auto

lemma kept_attr_safe: "\<not> spec_attr_removed h t a \<Longrightarrow> safeAttr h a"
  by (auto simp: spec_attr_removed_def safeAttr_def)

lemma rel_attr_safe: "safeAttr h (''rel'', w)"
  by (simp add: safeAttr_def startsWith_def toLowerCase_def toLowerChar_def char_tables)

lemma addLinkSecurity_safe:
  assumes "list_all (safeAttr h) as"
  shows "list_all (safeAttr h) (addLinkSecurity t as)"
proof -
  from addLinkSecurity_cases [of t as] show ?thesis
  proof
    assume "addLinkSecurity t as = as"
    with assms show ?thesis by simp
  next
    assume eq: "addLinkSecurity t as =
        setFirst ''rel''
          (joinWith '' '' (Set_add (Set_add (relTokens (relOf as)) ''noopener'') ''noreferrer''))
          as"
    show ?thesis
      unfolding eq using assms rel_attr_safe by (rule list_all_setFirst)
  qed
qed

lemma sanitized_all_safe:
  "list_all parsedNode ns \<Longrightarrow> list_all (safeElement h) (elementsOf (sanitizeElement h ns))"
proof (induction h ns rule: sanitizeElement.induct)
  case (4 h tag as kids rest)
  from "4.prems" have r: "list_all parsedNode rest"
    by simp
  show ?case
  proof (cases "toLowerCase (tagName tag) \<in> set ALLOWED_TAGS")
    case True
    with "4.prems" have p: "parsedAttrs as" "list_all parsedNode kids"
      by simp_all
    have "list_all (safeAttr h)
            (filter (\<lambda>a. \<not> spec_attr_removed h (toLowerCase (tagName tag)) a) as)"
      using kept_attr_safe [of h "toLowerCase (tagName tag)"] by (simp add: list_all_iff)
    then have "list_all (safeAttr h)
       (addLinkSecurity (toLowerCase (tagName tag))
          (sanitizeAttributes h (toLowerCase (tagName tag)) as as))"
      unfolding sanitizeAttributes_filter [OF p(1)] by (rule addLinkSecurity_safe)
    with True have "safeElement h (tag, addLinkSecurity (toLowerCase (tagName tag))
          (sanitizeAttributes h (toLowerCase (tagName tag)) as as))"
      by (simp add: safeElement_def)
    moreover have "list_all (safeElement h) (elementsOf (sanitizeElement h kids))"
      using "4.IH"(2) True p(2) by simp
    moreover have "list_all (safeElement h) (elementsOf (sanitizeElement h rest))"
      using "4.IH"(3) True r by simp
    ultimately show ?thesis
      using True by simp
  next
    case False
    then show ?thesis using "4.IH"(1) r by simp
  qed
qed simp_all

lemma dangerous_not_allowed: "list_all (\<lambda>t. t \<notin> set ALLOWED_TAGS) dangerousTags"
  by (simp add: dangerousTags_def ALLOWED_TAGS_def)

text \<open>
  Claim C1, as amended. Without a DOM parser the output is the escaped input: it holds no
  \<open><\<close>, so none of \<open><script\<close>, \<open><iframe\<close>, \<open><object\<close>, \<open><embed\<close>, \<open><svg\<close>, \<open><math\<close>.
  With a DOM parser the output is the serialization of the sanitized tree. Every element
  left in that tree, at any depth and for any input tree, has a tag of \<open>ALLOWED_TAGS\<close>,
  which holds none of \<open>script\<close>, \<open>iframe\<close>, \<open>object\<close>, \<open>embed\<close>, \<open>svg\<close>, \<open>math\<close>. For a
  tree as the parser builds it (the attribute lists of the elements that the walk reaches
  hold no ASCII capital in a name and no name twice) every element left has no attribute
  whose name starts with \<open>on\<close>, no \<open>style\<close> attribute, and only \<open>href\<close> and \<open>src\<close> values
  that pass the URL validator, none of which has the scheme \<open>javascript\<close>. Text, comments
  and the values of other attributes are kept as they are.
\<close>

theorem sanitized_output_safe:
  "list_all (\<lambda>p. \<not> str_includes (sanitizeHtml h None x) p) dangerousOpeners
   \<and> sanitizeHtml h (Some d) x
       = (if x = [] then [] else innerHTML d (sanitizeElement h (parseFromString d x)))
   \<and> list_all (\<lambda>e. toLowerCase (tagName (fst e)) \<in> set ALLOWED_TAGS)
        (elementsOf (sanitizeElement h ns))
   \<and> (list_all parsedNode ns \<longrightarrow>
        list_all (safeElement h) (elementsOf (sanitizeElement h ns)))
   \<and> list_all (\<lambda>t. t \<notin> set ALLOWED_TAGS) dangerousTags
   \<and> (isSafeUrl h v \<longrightarrow> URL_scheme (trim v) \<noteq> Some ''javascript'')"
proof -
  have dom: "sanitizeHtml h (Some d) x
       = (if x = [] then [] else innerHTML d (sanitizeElement h (parseFromString d x)))"
    by (simp add: sanitizeHtml_def)
  have js: "isSafeUrl h v \<longrightarrow> URL_scheme (trim v) \<noteq> Some ''javascript''"
    using javascript_unsafe [of v h] by blast
  have tree: "list_all parsedNode ns \<longrightarrow>
        list_all (safeElement h) (elementsOf (sanitizeElement h ns))"
    using sanitized_all_safe [of ns h] by blast
  from degraded_no_opener [of h x] dom sanitized_tags_allowed [of h ns] tree
    dangerous_not_allowed js
  show ?thesis by (intro conjI)
qed

lemmas tag_eval = tagName_def asciiUppercase_def asciiUpperChar_def toLowerCase_def
  toLowerChar_def char_tables ALLOWED_TAGS_def

theorem sanitized_output_safe_witness:
  "list_all (safeElement server_host)
     (elementsOf (sanitizeElement server_host
        [Element ''svg'' [(''viewBox'', ''0 0 1 1''), (''onload'', ''x()'')]
           [Element ''animate'' [(''attributeName'', ''x''), (''onbegin'', ''x()'')] []],
         Element ''div'' [(''onclick'', ''x()'')]
           [Element ''script'' [] [TextNode ''alert(1)''],
            Element ''img'' [(''src'', ''javascript:alert(1)'')] []]]))
   \<and> list_all (\<lambda>p. \<not> str_includes
                     (sanitizeHtml server_host None ''<script>alert(1)</script>'') p)
       dangerousOpeners
   \<and> URL_scheme (trim ''https://example.com'') \<noteq> Some ''javascript''"
proof -
  have svg: "toLowerCase (tagName ''svg'') \<notin> set ALLOWED_TAGS"
    by (simp add: tag_eval)
  have script: "toLowerCase (tagName ''script'') \<notin> set ALLOWED_TAGS"
    by (simp add: tag_eval)
  have attrs: "parsedAttrs [(''onclick'', ''x()'')]"
      "parsedAttrs [(''src'', ''javascript:alert(1)'')]" "parsedAttrs []"
    by (simp_all add: parsedAttrs_def asciiLowercase_def asciiLowerChar_def char_tables)
  have parsed: "list_all parsedNode
        [Element ''svg'' [(''viewBox'', ''0 0 1 1''), (''onload'', ''x()'')]
           [Element ''animate'' [(''attributeName'', ''x''), (''onbegin'', ''x()'')] []],
         Element ''div'' [(''onclick'', ''x()'')]
           [Element ''script'' [] [TextNode ''alert(1)''],
            Element ''img'' [(''src'', ''javascript:alert(1)'')] []]]"
    using svg script attrs by simp
  have safe: "isSafeUrl server_host ''https://example.com''"
    by (simp add: url_eval)
  note inst = sanitized_output_safe [of server_host "''<script>alert(1)</script>''" d
        "[Element ''svg'' [(''viewBox'', ''0 0 1 1''), (''onload'', ''x()'')]
           [Element ''animate'' [(''attributeName'', ''x''), (''onbegin'', ''x()'')] []],
         Element ''div'' [(''onclick'', ''x()'')]
           [Element ''script'' [] [TextNode ''alert(1)''],
            Element ''img'' [(''src'', ''javascript:alert(1)'')] []]]"
        "''https://example.com''"]
  have one: "list_all (safeElement server_host)
     (elementsOf (sanitizeElement server_host
        [Element ''svg'' [(''viewBox'', ''0 0 1 1''), (''onload'', ''x()'')]
           [Element ''animate'' [(''attributeName'', ''x''), (''onbegin'', ''x()'')] []],
         Element ''div'' [(''onclick'', ''x()'')]
           [Element ''script'' [] [TextNode ''alert(1)''],
            Element ''img'' [(''src'', ''javascript:alert(1)'')] []]]))"
    by (rule mp [OF conjunct1 [OF conjunct2 [OF conjunct2 [OF conjunct2 [OF inst]]]] parsed])
  have two: "list_all (\<lambda>p. \<not> str_includes
                     (sanitizeHtml server_host None ''<script>alert(1)</script>'') p)
       dangerousOpeners"
    by (rule conjunct1 [OF inst])
  have three: "URL_scheme (trim ''https://example.com'') \<noteq> Some ''javascript''"
    by (rule mp [OF conjunct2 [OF conjunct2 [OF conjunct2 [OF conjunct2 [OF conjunct2
          [OF inst]]]]] safe])
  from one two three show ?thesis by (intro conjI)
qed

text \<open>What the output may still hold. Without a DOM parser the input
  \<open>javascript:alert(1) style=x onload=y\<close> is returned as it is. With one, the text of a
  paragraph, the value of a \<open>title\<close> attribute and a comment go through the tree walk
  unchanged, whatever they spell.\<close>

theorem sanitized_output_counterexample:
  "sanitizeHtml server_host None ''javascript:alert(1) style=x onload=y''
     = ''javascript:alert(1) style=x onload=y''
   \<and> str_includes (sanitizeHtml server_host None ''javascript:alert(1) style=x onload=y'')
         ''javascript:''
   \<and> str_includes (sanitizeHtml server_host None ''javascript:alert(1) style=x onload=y'')
         ''style=''
   \<and> matchesOnHandler (sanitizeHtml server_host None ''javascript:alert(1) style=x onload=y'')
   \<and> sanitizeElement server_host
         [Element ''p'' [(''title'', ''javascript:x'')] [TextNode ''style= onclick= javascript:''],
          CommentNode ''<script>'']
       = [Element ''p'' [(''title'', ''javascript:x'')] [TextNode ''style= onclick= javascript:''],
          CommentNode ''<script>'']"
proof -
  have out: "sanitizeHtml server_host None ''javascript:alert(1) style=x onload=y''
     = ''javascript:alert(1) style=x onload=y''"
    by (simp add: sanitizeHtml_def escapeHtml_def escapeChar_def)
  have a: "str_includes ''javascript:alert(1) style=x onload=y'' ''javascript:''"
    by (simp add: startsWith_def)
  have b: "str_includes ''javascript:alert(1) style=x onload=y'' ''style=''"
    by (simp add: startsWith_def)
  have c: "matchesOnHandler ''javascript:alert(1) style=x onload=y''"
    by (simp add: startsWith_def asciiLowerLetters_def)
  have t: "toLowerCase (tagName ''p'') = ''p''"
    by (simp add: tagName_def asciiUppercase_def asciiUpperChar_def toLowerCase_def
        toLowerChar_def char_tables)
  have n: "toLowerCase ''title'' = ''title''"
    by (simp add: toLowerCase_def toLowerChar_def char_tables)
  have attrs: "sanitizeAttributes server_host ''p'' [(''title'', ''javascript:x'')]
                 [(''title'', ''javascript:x'')] = [(''title'', ''javascript:x'')]"
    by (simp add: Let_def n startsWith_def isAllowedAttr_def ALLOWED_ATTRS_def)
  have tree: "sanitizeElement server_host
         [Element ''p'' [(''title'', ''javascript:x'')] [TextNode ''style= onclick= javascript:''],
          CommentNode ''<script>'']
       = [Element ''p'' [(''title'', ''javascript:x'')] [TextNode ''style= onclick= javascript:''],
          CommentNode ''<script>'']"
    by (simp add: t attrs ALLOWED_TAGS_def addLinkSecurity_def del: sanitizeAttributes.simps)
  show ?thesis
    unfolding out using a b c tree by simp
qed

section \<open>Facts about sanitizing twice\<close>






















lemmas serialize_eval = voidElements_def rawTextElements_def escapeTextChar_def
  escapeAttrChar_def serializeAttr_def

lemma sample_p_parses:
  "parseFromString sample_dom_host ''<p onclick=x()>Hi</p>''
     = [Element ''p'' [(''onclick'', ''x()'')] [TextNode ''Hi'']]"
  "parseFromString sample_dom_host ''<p>Hi</p>'' = [Element ''p'' [] [TextNode ''Hi'']]"
  by (simp_all add: sample_dom_host_def sample_parses_def)


lemma sample_tags:
  "toLowerCase (tagName ''p'') = ''p''"
  "toLowerCase (tagName ''table'') = ''table''"
  "toLowerCase (tagName ''tbody'') = ''tbody''"
  "toLowerCase (tagName ''tr'') = ''tr''"
  "toLowerCase (tagName ''script'') = ''script''"
  by (simp_all add: tagName_def asciiUppercase_def asciiUpperChar_def toLowerCase_def
      toLowerChar_def char_tables)

lemma sample_p_sanitized:
  "sanitizeElement server_host [Element ''p'' [(''onclick'', ''x()'')] [TextNode ''Hi'']]
     = [Element ''p'' [] [TextNode ''Hi'']]"
  "sanitizeElement server_host [Element ''p'' [] [TextNode ''Hi'']]
     = [Element ''p'' [] [TextNode ''Hi'']]"
proof -
  have low: "toLowerCase ''onclick'' = ''onclick''"
    by (simp add: toLowerCase_def toLowerChar_def char_tables)
  have loop: "sanitizeAttributes server_host ''p'' [(''onclick'', ''x()'')] [(''onclick'', ''x()'')]
              = []"
    by (simp add: Let_def low startsWith_def removeAttribute_def asciiLowercase_def
        asciiLowerChar_def char_tables)
  show "sanitizeElement server_host [Element ''p'' [(''onclick'', ''x()'')] [TextNode ''Hi'']]
     = [Element ''p'' [] [TextNode ''Hi'']]"
    by (simp add: sample_tags loop ALLOWED_TAGS_def addLinkSecurity_def
        del: sanitizeAttributes.simps)
  show "sanitizeElement server_host [Element ''p'' [] [TextNode ''Hi'']]
     = [Element ''p'' [] [TextNode ''Hi'']]"
    by (simp add: sample_tags ALLOWED_TAGS_def addLinkSecurity_def)
qed


lemma sample_serialized:
  "innerHTML sample_dom_host [Element ''p'' [] [TextNode ''Hi'']] = ''<p>Hi</p>''"
  "innerHTML sample_dom_host
     [Element ''table'' [] [Element ''tbody'' [] [Element ''tr'' [] [TextNode ''hi'']]]]
   = ''<table><tbody><tr>hi</tr></tbody></table>''"
  "innerHTML sample_dom_host
     [TextNode ''hi'', Element ''table'' [] [Element ''tbody'' [] [Element ''tr'' [] []]]]
   = ''hi<table><tbody><tr></tr></tbody></table>''"
  by (simp_all add: sample_dom_host_def serialize_eval)

lemma sample_p_run:
  "sanitizeHtml server_host (Some sample_dom_host) ''<p onclick=x()>Hi</p>'' = ''<p>Hi</p>''"
  by (simp add: sanitizeHtml_def sample_p_parses sample_p_sanitized sample_serialized
      del: sanitizeElement.simps)




end
